theory Spec2Isabelle
  imports Complex_Main "HOL-Library.AList"
begin

section \<open>Display state parser (\<^verbatim>\<open>XrandrGUI.parse_xrandr_output\<close>)\<close>

text \<open>
  The program is \<^verbatim>\<open>src/xrandr-gui.py\<close>. Python strings are modelled as
  \<^typ>\<open>string\<close>, that is as lists of the 256 characters of \<^typ>\<open>char\<close>; the
  character classes of the \<^verbatim>\<open>re\<close> module are given their meaning on the code points
  below 256:
  \<^item> \<^verbatim>\<open>\s\<close> (and \<^verbatim>\<open>str.strip\<close>) is Unicode white space: code points 9 to 13,
    28 to 32, 133 and 160;
  \<^item> \<^verbatim>\<open>\S\<close> is its complement;
  \<^item> \<^verbatim>\<open>\d\<close> is a decimal digit, \<^verbatim>\<open>0\<close> to \<^verbatim>\<open>9\<close>;
  \<^item> \<^verbatim>\<open>[\d.]\<close> is a decimal digit or a full stop.
\<close>

record display =
  name :: string
  width :: int
  height :: int
  x :: int
  y :: int
  is_primary :: bool
  is_connected :: bool
  modes :: "string list"
  current_mode :: string
  current_rate :: string

datatype py_error = ValueError

definition is_space :: "char \<Rightarrow> bool" where
  "is_space c =
     (let n = (of_char c :: nat)
      in (9 \<le> n \<and> n \<le> 13) \<or> (28 \<le> n \<and> n \<le> 32) \<or> n = 133 \<or> n = 160)"

definition is_digit :: "char \<Rightarrow> bool" where
  "is_digit c = (let n = (of_char c :: nat) in 48 \<le> n \<and> n \<le> 57)"

definition is_rate_char :: "char \<Rightarrow> bool" where
  "is_rate_char c = (is_digit c \<or> c = CHR ''.'')"

text \<open>
  \<^verbatim>\<open>output.split('\n')\<close>: the pieces between line feeds; a text with \<open>k\<close> line
  feeds has \<open>k + 1\<close> pieces, the empty text one empty piece.
\<close>

fun split_lines :: "string \<Rightarrow> string list" where
  "split_lines [] = [[]]"
| "split_lines (c # cs) =
     (if c = CHR 0x0A then [] # split_lines cs
      else (case split_lines cs of l # ls \<Rightarrow> (c # l) # ls | [] \<Rightarrow> [[c]]))"

text \<open>
  \<^verbatim>\<open>int(s)\<close> on a non-empty string of decimal digits (the only strings the parser
  passes to it, being matches of \<^verbatim>\<open>\d+\<close>). CPython since 3.11 raises
  \<^verbatim>\<open>ValueError\<close> when the string has more than 4300 digits (the default of
  \<^verbatim>\<open>sys.get_int_max_str_digits()\<close>); the model has that branch. An older
  interpreter returns the value there, so a statement proved below for inputs within
  the limit, or for paths that do not call \<^verbatim>\<open>int\<close>, holds for both.
\<close>

definition digit_value :: "char \<Rightarrow> int" where
  "digit_value c = int (of_char c) - 48"

definition decimal_value :: "string \<Rightarrow> int" where
  "decimal_value s = foldl (\<lambda>a c. 10 * a + digit_value c) 0 s"

definition int_max_str_digits :: nat where
  "int_max_str_digits = 4300"

definition py_int :: "string \<Rightarrow> py_error + int" where
  "py_int s = (if length s > int_max_str_digits then Inl ValueError else Inr (decimal_value s))"

subsection \<open>The header pattern\<close>

text \<open>
  \<^verbatim>\<open>re.match(r'^(\S+)\s+(connected|disconnected)\s*(primary)?\s*(?:(\d+)x(\d+)\+(\d+)\+(\d+))?', line)\<close>

  The pattern is anchored at the start of the line and every quantifier in it is greedy.
  A greedy run of a character class that is followed by something outside the class can
  only end at the end of the maximal run (a shorter run would leave a character of the
  class where the next item refuses it), so the backtracking matcher takes the maximal
  run or fails: \<^verbatim>\<open>\S+\<close> and \<^verbatim>\<open>\s+\<close> are followed by a white space and by a
  letter, every \<^verbatim>\<open>\d+\<close> but the last by \<^verbatim>\<open>x\<close> or \<^verbatim>\<open>+\<close>. Whatever follows
  \<^verbatim>\<open>(connected|disconnected)\<close> is optional, so the matcher's first, greediest path
  succeeds there: maximal white space, \<^verbatim>\<open>primary\<close> if it stands there, maximal white
  space, the geometry if it stands there. The alternative \<^verbatim>\<open>connected\<close> is tried
  first.

  \<open>match_header\<close> returns the groups: group 1, whether group 2 is
  \<^verbatim>\<open>connected\<close>, whether group 3 is \<^verbatim>\<open>primary\<close>, and groups 4 to 7 (all four
  matched, or none).
\<close>

definition expect :: "string \<Rightarrow> string \<Rightarrow> string option" where
  "expect lit s = (if take (length lit) s = lit then Some (drop (length lit) s) else None)"

definition match_geometry :: "string \<Rightarrow> (string \<times> string \<times> string \<times> string) option" where
  "match_geometry s =
     (let g4 = takeWhile is_digit s; s1 = dropWhile is_digit s
      in if g4 = [] then None
         else case expect ''x'' s1 of None \<Rightarrow> None
         | Some s2 \<Rightarrow>
           let g5 = takeWhile is_digit s2; s3 = dropWhile is_digit s2
           in if g5 = [] then None
              else case expect ''+'' s3 of None \<Rightarrow> None
              | Some s4 \<Rightarrow>
                let g6 = takeWhile is_digit s4; s5 = dropWhile is_digit s4
                in if g6 = [] then None
                   else case expect ''+'' s5 of None \<Rightarrow> None
                   | Some s6 \<Rightarrow>
                     let g7 = takeWhile is_digit s6
                     in if g7 = [] then None else Some (g4, g5, g6, g7))"

definition match_state :: "string \<Rightarrow> (bool \<times> string) option" where
  "match_state s =
     (case expect ''connected'' s of Some r \<Rightarrow> Some (True, r)
      | None \<Rightarrow>
        (case expect ''disconnected'' s of Some r \<Rightarrow> Some (False, r) | None \<Rightarrow> None))"

definition match_header ::
  "string \<Rightarrow> (string \<times> bool \<times> bool \<times> (string \<times> string \<times> string \<times> string) option) option" where
  "match_header line =
     (let g1 = takeWhile (\<lambda>c. \<not> is_space c) line;
          s1 = dropWhile (\<lambda>c. \<not> is_space c) line;
          ws = takeWhile is_space s1;
          s2 = dropWhile is_space s1
      in if g1 = [] \<or> ws = [] then None
         else case match_state s2 of None \<Rightarrow> None
         | Some (conn, s3) \<Rightarrow>
           let s4 = dropWhile is_space s3;
               prim = (expect ''primary'' s4 \<noteq> None);
               s5 = (case expect ''primary'' s4 of Some r \<Rightarrow> r | None \<Rightarrow> s4);
               s6 = dropWhile is_space s5
           in Some (g1, conn, prim, match_geometry s6))"

subsection \<open>The mode patterns\<close>

text \<open>
  \<^verbatim>\<open>re.match(r'\s+(\d+x\d+)\s+([\d.]+)', line)\<close>, by the same argument: each greedy
  run is followed by an item outside its class. The result is group 1.
\<close>

definition match_mode :: "string \<Rightarrow> string option" where
  "match_mode line =
     (let ws = takeWhile is_space line; s1 = dropWhile is_space line;
          w = takeWhile is_digit s1; s2 = dropWhile is_digit s1
      in if ws = [] \<or> w = [] then None
         else case expect ''x'' s2 of None \<Rightarrow> None
         | Some s3 \<Rightarrow>
           let h = takeWhile is_digit s3; s4 = dropWhile is_digit s3;
               ws2 = takeWhile is_space s4; s5 = dropWhile is_space s4
           in if h = [] \<or> ws2 = [] \<or> takeWhile is_rate_char s5 = [] then None
              else Some (w @ ''x'' @ h))"

text \<open>
  \<^verbatim>\<open>re.search(r'([\d.]+)\*', line)\<close>: the start positions are tried from the left; at
  a position the pattern matches when the maximal run of \<^verbatim>\<open>[\d.]\<close> there is not
  empty and an asterisk follows it. The result is group 1 of the leftmost match.
\<close>

fun search_rate :: "string \<Rightarrow> string option" where
  "search_rate [] = None"
| "search_rate (c # cs) =
     (if takeWhile is_rate_char (c # cs) \<noteq> []
         \<and> expect ''*'' (dropWhile is_rate_char (c # cs)) \<noteq> None
      then Some (takeWhile is_rate_char (c # cs))
      else search_rate cs)"

subsection \<open>The loop over the lines\<close>

text \<open>
  \<^verbatim>\<open>current_display\<close> is a reference to an object that is also an element of
  the list \<^verbatim>\<open>displays\<close>, and the mode lines mutate it in place. The loop's state
  is the pair of the list and, for \<^verbatim>\<open>current_display\<close>, the index of the object in
  the list (\<open>None\<close> for Python's \<^verbatim>\<open>None\<close>).
\<close>

type_synonym parser_state = "display list \<times> nat option"

definition geometry_or_default ::
  "(string \<times> string \<times> string \<times> string) option \<Rightarrow> py_error + (int \<times> int \<times> int \<times> int)" where
  "geometry_or_default g =
     (case g of
        None \<Rightarrow> Inr (1920, 1080, 0, 0)
      | Some (g4, g5, g6, g7) \<Rightarrow>
          (case py_int g4 of Inl e \<Rightarrow> Inl e | Inr w \<Rightarrow>
          (case py_int g5 of Inl e \<Rightarrow> Inl e | Inr h \<Rightarrow>
          (case py_int g6 of Inl e \<Rightarrow> Inl e | Inr px \<Rightarrow>
          (case py_int g7 of Inl e \<Rightarrow> Inl e | Inr py \<Rightarrow> Inr (w, h, px, py))))))"

text \<open>\<^verbatim>\<open>f"{width}x{height}"\<close> and the status messages need the decimal numeral of an integer.\<close>

fun str_nat :: "nat \<Rightarrow> string" where
  "str_nat n =
     (if n < 10 then [char_of (48 + n)] else str_nat (n div 10) @ [char_of (48 + n mod 10)])"

definition str_int :: "int \<Rightarrow> string" where
  "str_int i = (if i < 0 then CHR ''-'' # str_nat (nat (- i)) else str_nat (nat i))"

definition new_display :: "string \<Rightarrow> bool \<Rightarrow> int \<times> int \<times> int \<times> int \<Rightarrow> display" where
  "new_display nm prim g =
     (case g of (w, h, px, py) \<Rightarrow>
        \<lparr>name = nm, width = w, height = h, x = px, y = py, is_primary = prim,
         is_connected = True, modes = [],
         current_mode = str_int w @ ''x'' @ str_int h, current_rate = ''60.00''\<rparr>)"

definition mode_line :: "string \<Rightarrow> display \<Rightarrow> display" where
  "mode_line line d =
     (case match_mode line of
        None \<Rightarrow> d
      | Some mode \<Rightarrow>
          let d1 = (if mode \<in> set (modes d) then d else d\<lparr>modes := modes d @ [mode]\<rparr>)
          in if CHR ''*'' \<in> set line
             then let d2 = d1\<lparr>current_mode := mode\<rparr>
                  in (case search_rate line of
                        Some rate \<Rightarrow> d2\<lparr>current_rate := rate\<rparr>
                      | None \<Rightarrow> d2)
             else d1)"

definition parse_line :: "string \<Rightarrow> parser_state \<Rightarrow> py_error + parser_state" where
  "parse_line line st =
     (case st of (ds, cur) \<Rightarrow>
      (case match_header line of
         Some (nm, conn, prim, g) \<Rightarrow>
           if conn
           then (case geometry_or_default g of
                   Inl e \<Rightarrow> Inl e
                 | Inr geo \<Rightarrow> Inr (ds @ [new_display nm prim geo], Some (length ds)))
           else Inr (ds, cur)
       | None \<Rightarrow>
           (case cur of
              Some i \<Rightarrow>
                if take 3 line = ''   ''
                then Inr (ds[i := mode_line line (ds ! i)], cur)
                else Inr (ds, cur)
            | None \<Rightarrow> Inr (ds, cur))))"

fun parse_lines :: "string list \<Rightarrow> parser_state \<Rightarrow> py_error + parser_state" where
  "parse_lines [] st = Inr st"
| "parse_lines (line # rest) st =
     (case parse_line line st of Inl e \<Rightarrow> Inl e | Inr st' \<Rightarrow> parse_lines rest st')"

text \<open>
  The function from the text of \<^verbatim>\<open>result.stdout\<close> to the returned list. (Running
  the query command is outside the model; when it raises, the function returns the empty
  list before it reads any line.)
\<close>

definition parse_xrandr_output :: "string \<Rightarrow> py_error + display list" where
  "parse_xrandr_output output =
     (case parse_lines (split_lines output) ([], None) of
        Inl e \<Rightarrow> Inl e
      | Inr st \<Rightarrow> Inr (fst st))"

section \<open>The window's state\<close>

text \<open>
  \<^verbatim>\<open>Gdk.Rectangle\<close>, the value of \<^verbatim>\<open>widget.get_allocation()\<close>: four C integers.
  The model takes a widget's allocation to be its position in the
  \<^verbatim>\<open>Gtk.Fixed\<close> container and its size, and \<^verbatim>\<open>container.move\<close> to set the
  position.
\<close>

record rectangle =
  alloc_x :: int
  alloc_y :: int
  alloc_width :: int
  alloc_height :: int

text \<open>
  \<^verbatim>\<open>DisplayWidget\<close>: the fields the handlers below read or write. Drawing requests
  (\<^verbatim>\<open>queue_draw\<close>), the cursor and the two selection labels are left out.
\<close>

record display_widget =
  display :: display
  allocation :: rectangle
  is_source :: bool
  is_target :: bool
  has_pending_changes :: bool
  is_mirrored :: bool
  mirrored_with :: "string list"

text \<open>
  \<^verbatim>\<open>XrandrGUI\<close>. A Python \<^verbatim>\<open>dict\<close> keeps its keys in insertion order, and
  assigning to a present key keeps the key's place: the two dictionaries are
  association lists, written with \<open>AList.update\<close> and read with \<open>map_of\<close>.
  \<open>display_widgets\<close> is keyed by \<^verbatim>\<open>display.name\<close>; the handlers receive a widget
  object, which the model names by its key. \<open>action_btns\<close> is the common
  sensitivity of the mirror and extend buttons. \<^verbatim>\<open>show_status\<close> replaces the one
  message of the status bar; \<open>status\<close> is the list of the messages shown so far, the
  newest last.
\<close>

record xrandr_gui =
  displays :: "display list"
  display_widgets :: "(string \<times> display_widget) list"
  source_display :: "display option"
  target_display :: "display option"
  pending_layout_changes :: "(string \<times> string \<times> string) list"
  action_btns :: bool
  apply_layout_btn :: bool
  unlink_mirror_btn :: bool
  status :: "string list"

definition show_status :: "string \<Rightarrow> xrandr_gui \<Rightarrow> xrandr_gui" where
  "show_status message s = s\<lparr>status := status s @ [message]\<rparr>"

definition update_widget ::
  "string \<Rightarrow> (display_widget \<Rightarrow> display_widget) \<Rightarrow> xrandr_gui \<Rightarrow> xrandr_gui" where
  "update_widget key f s = s\<lparr>display_widgets := AList.map_entry key f (display_widgets s)\<rparr>"

section \<open>Selection (\<^verbatim>\<open>XrandrGUI.on_display_clicked\<close>)\<close>

definition update_action_buttons :: "xrandr_gui \<Rightarrow> xrandr_gui" where
  "update_action_buttons s =
     s\<lparr>action_btns := (source_display s \<noteq> None \<and> target_display s \<noteq> None)\<rparr>"

text \<open>
  The handler is connected once per widget with the widget's own display as the last
  argument, so the clicked widget is the one stored under \<^verbatim>\<open>display.name\<close>. In the
  last branch \<^verbatim>\<open>self.target_display\<close> is not \<^verbatim>\<open>None\<close>: the second test failed
  with a source whose name differs from the clicked one (third test).
\<close>

definition on_display_clicked :: "display \<Rightarrow> xrandr_gui \<Rightarrow> xrandr_gui" where
  "on_display_clicked d s =
     (case source_display s of
        None \<Rightarrow>
          show_status (''Selected '' @ name d @ '' as source'')
            (update_widget (name d) (\<lambda>w. w\<lparr>is_source := True\<rparr>) (s\<lparr>source_display := Some d\<rparr>))
      | Some src \<Rightarrow>
          if target_display s = None \<and> name d \<noteq> name src
          then show_status (''Selected '' @ name d @ '' as target'')
                 (update_action_buttons
                   (update_widget (name d) (\<lambda>w. w\<lparr>is_target := True\<rparr>)
                     (s\<lparr>target_display := Some d\<rparr>)))
          else if name d = name src
          then update_action_buttons
                 ((update_widget (name d) (\<lambda>w. w\<lparr>is_source := False\<rparr>) s)\<lparr>source_display := None\<rparr>)
          else (case target_display s of
                  Some tgt \<Rightarrow>
                    if name d = name tgt
                    then update_action_buttons
                           ((update_widget (name d) (\<lambda>w. w\<lparr>is_target := False\<rparr>) s)
                              \<lparr>target_display := None\<rparr>)
                    else s
                | None \<Rightarrow> s))"

text \<open>A sequence of clicks, the first click first.\<close>

definition clicks :: "display list \<Rightarrow> xrandr_gui \<Rightarrow> xrandr_gui" where
  "clicks ds s = fold on_display_clicked ds s"

section \<open>Mirror groups (\<^verbatim>\<open>XrandrGUI._find_mirrored_display_groups\<close>)\<close>

definition pos :: "display \<Rightarrow> int \<times> int" where
  "pos d = (x d, y d)"

definition add_to_group ::
  "display \<Rightarrow> ((int \<times> int) \<times> string list) list \<Rightarrow> ((int \<times> int) \<times> string list) list" where
  "add_to_group d position_groups =
     (let groups1 = (if map_of position_groups (pos d) = None
                     then AList.update (pos d) [] position_groups else position_groups)
      in AList.map_entry (pos d) (\<lambda>g. g @ [name d]) groups1)"

definition find_mirrored_display_groups :: "display list \<Rightarrow> string list list" where
  "find_mirrored_display_groups ds = map snd (fold add_to_group ds [])"

text \<open>
  The loop of \<^verbatim>\<open>refresh_displays\<close> that flags the widgets of every group longer than
  one (lines 548 to 561); it returns the widgets and \<^verbatim>\<open>has_mirrored\<close>.
\<close>

definition mark_group ::
  "string list \<Rightarrow> (string \<times> display_widget) list \<Rightarrow> (string \<times> display_widget) list" where
  "mark_group grp widgets =
     fold (\<lambda>display_name ws.
             AList.map_entry display_name
               (\<lambda>w. w\<lparr>is_mirrored := True,
                      mirrored_with := filter (\<lambda>n. n \<noteq> display_name) grp\<rparr>) ws)
          grp widgets"

definition mark_mirrored ::
  "string list list \<Rightarrow> (string \<times> display_widget) list \<Rightarrow> (string \<times> display_widget) list \<times> bool" where
  "mark_mirrored groups widgets =
     fold (\<lambda>grp acc.
             if length grp > 1 then (mark_group grp (fst acc), True) else acc)
          groups (widgets, False)"

text \<open>
  The widget \<^verbatim>\<open>refresh_displays\<close> creates for a display: no flag is set. (Its
  position in the container plays no part in the grouping.)
\<close>

definition fresh_widget :: "rectangle \<Rightarrow> display \<Rightarrow> display_widget" where
  "fresh_widget r d =
     \<lparr>display = d, allocation = r, is_source = False, is_target = False,
      has_pending_changes = False, is_mirrored = False, mirrored_with = []\<rparr>"

text \<open>
  The loop of \<^verbatim>\<open>refresh_displays\<close> that fills \<^verbatim>\<open>display_widgets\<close> (lines 536
  to 545), one widget per display in the order of the list. The place of a widget is
  computed with floats from the display's geometry and its index, and its size is the
  toolkit's; both are the parameter \<open>place\<close>.
\<close>

definition create_widgets ::
  "(nat \<Rightarrow> display \<Rightarrow> rectangle) \<Rightarrow> display list \<Rightarrow> (string \<times> display_widget) list" where
  "create_widgets place ds =
     fold (\<lambda>item ws.
             AList.update (name (snd item))
               (fresh_widget (place (fst item) (snd item)) (snd item)) ws)
          (enumerate 0 ds) []"

section \<open>Layout snap engine (\<^verbatim>\<open>XrandrGUI.snap_widget_position\<close>)\<close>

text \<open>
  A candidate is the tuple the code stores in \<^verbatim>\<open>best_snap\<close>:
  \<^verbatim>\<open>(snap_x, snap_y, other_display.name, direction)\<close>.
\<close>

type_synonym snap = "int \<times> int \<times> string \<times> string"

definition snap_threshold :: int where
  "snap_threshold = 50"

definition snap_positions :: "rectangle \<Rightarrow> rectangle \<Rightarrow> (string \<times> int \<times> int) list" where
  "snap_positions dragged_alloc other_alloc =
     [(''right-of'', alloc_x other_alloc + alloc_width other_alloc, alloc_y other_alloc),
      (''left-of'', alloc_x other_alloc - alloc_width dragged_alloc, alloc_y other_alloc),
      (''above'', alloc_x other_alloc, alloc_y other_alloc - alloc_height dragged_alloc),
      (''below'', alloc_x other_alloc, alloc_y other_alloc + alloc_height other_alloc)]"

text \<open>
  \<^verbatim>\<open>distance = (dx * dx + dy * dy) ** 0.5\<close> is a float, and \<^verbatim>\<open>min_distance\<close>
  starts as \<^verbatim>\<open>float('inf')\<close>. The model keeps the exact integer
  \<^verbatim>\<open>dx * dx + dy * dy\<close> in place of its square root, and \<open>None\<close> in place of
  infinity. The two tests of the code read the same on the squares: the allocations are
  C integers, so the sum is an integer below \<open>2 ^ 66\<close>; the square root of an integer
  of at least \<open>22500\<close> is at least \<open>150\<close> as a float, and the square roots of two
  different integers below \<open>22500\<close> are below \<open>150\<close> and more than \<open>0.003\<close>
  apart, far more than a rounding error; and \<^verbatim>\<open>min_distance\<close> only ever holds
  infinity or a distance that passed the test against \<open>150\<close>. \<open>distance\<close> below is
  the real number the float approximates.
\<close>

definition distance_sq :: "rectangle \<Rightarrow> int \<Rightarrow> int \<Rightarrow> int" where
  "distance_sq dragged_alloc snap_x snap_y =
     (let dx = alloc_x dragged_alloc - snap_x; dy = alloc_y dragged_alloc - snap_y
      in dx * dx + dy * dy)"

definition below :: "int \<Rightarrow> int option \<Rightarrow> bool" where
  "below d m = (case m of None \<Rightarrow> True | Some m' \<Rightarrow> d < m')"

type_synonym snap_state = "snap option \<times> int option"

definition consider_snap ::
  "rectangle \<Rightarrow> string \<Rightarrow> string \<times> int \<times> int \<Rightarrow> snap_state \<Rightarrow> snap_state" where
  "consider_snap dragged_alloc other_name snap_position st =
     (case snap_position of (direction, snap_x, snap_y) \<Rightarrow>
        let d = distance_sq dragged_alloc snap_x snap_y
        in if below d (snd st) \<and> d < (snap_threshold * 3) * (snap_threshold * 3)
           then (Some (snap_x, snap_y, other_name, direction), Some d)
           else st)"

definition consider_widget ::
  "string \<Rightarrow> rectangle \<Rightarrow> string \<times> display_widget \<Rightarrow> snap_state \<Rightarrow> snap_state" where
  "consider_widget dragged_name dragged_alloc item st =
     (case item of (nm, widget) \<Rightarrow>
        if nm = dragged_name then st
        else fold (consider_snap dragged_alloc (name (display widget)))
               (snap_positions dragged_alloc (allocation widget)) st)"

definition find_best_snap ::
  "string \<Rightarrow> rectangle \<Rightarrow> (string \<times> display_widget) list \<Rightarrow> snap option" where
  "find_best_snap dragged_name dragged_alloc widgets =
     fst (fold (consider_widget dragged_name dragged_alloc) widgets (None, None))"

text \<open>
  For the statements about the handler, written out from the design and not through the
  functions above. The candidates in the order of enumeration: the widgets other than
  the dragged one in the order of the dictionary, and for each the place right of it,
  left of it, above it and below it, with the other widget's coordinate on the other
  axis, the other monitor's name and the direction. The Euclidean distance between the
  dragged rectangle's top-left corner and a candidate's. And whether the dragged
  rectangle, put at a place, would intersect the rectangle of another widget, strictly on
  both axes.
\<close>

definition snap_candidates ::
  "string \<Rightarrow> rectangle \<Rightarrow> (string \<times> display_widget) list \<Rightarrow> snap list" where
  "snap_candidates dragged_name dragged_alloc widgets =
     concat (map (\<lambda>item.
        if fst item = dragged_name then []
        else [(alloc_x (allocation (snd item)) + alloc_width (allocation (snd item)),
               alloc_y (allocation (snd item)), name (display (snd item)), ''right-of''),
              (alloc_x (allocation (snd item)) - alloc_width dragged_alloc,
               alloc_y (allocation (snd item)), name (display (snd item)), ''left-of''),
              (alloc_x (allocation (snd item)),
               alloc_y (allocation (snd item)) - alloc_height dragged_alloc,
               name (display (snd item)), ''above''),
              (alloc_x (allocation (snd item)),
               alloc_y (allocation (snd item)) + alloc_height (allocation (snd item)),
               name (display (snd item)), ''below'')])
        widgets)"

definition distance :: "rectangle \<Rightarrow> snap \<Rightarrow> real" where
  "distance dragged_alloc c =
     sqrt (real_of_int ((alloc_x dragged_alloc - fst c) * (alloc_x dragged_alloc - fst c)
                        + (alloc_y dragged_alloc - fst (snd c)) * (alloc_y dragged_alloc - fst (snd c))))"

definition overlaps_other ::
  "string \<Rightarrow> rectangle \<Rightarrow> (string \<times> display_widget) list \<Rightarrow> int \<Rightarrow> int \<Rightarrow> bool" where
  "overlaps_other dragged_name dragged_alloc widgets px py =
     list_ex (\<lambda>item.
        fst item \<noteq> dragged_name
        \<and> px < alloc_x (allocation (snd item)) + alloc_width (allocation (snd item))
        \<and> alloc_x (allocation (snd item)) < px + alloc_width dragged_alloc
        \<and> py < alloc_y (allocation (snd item)) + alloc_height (allocation (snd item))
        \<and> alloc_y (allocation (snd item)) < py + alloc_height dragged_alloc)
      widgets"

text \<open>For the proofs: the body of the inner loop as a function of the candidate.\<close>

definition candidate_distance_sq :: "rectangle \<Rightarrow> snap \<Rightarrow> int" where
  "candidate_distance_sq dragged_alloc c = distance_sq dragged_alloc (fst c) (fst (snd c))"

definition consider_candidate :: "rectangle \<Rightarrow> snap \<Rightarrow> snap_state \<Rightarrow> snap_state" where
  "consider_candidate dragged_alloc c st =
     (if below (candidate_distance_sq dragged_alloc c) (snd st)
         \<and> candidate_distance_sq dragged_alloc c < (snap_threshold * 3) * (snap_threshold * 3)
      then (Some c, Some (candidate_distance_sq dragged_alloc c))
      else st)"

text \<open>
  The candidate at index \<open>i\<close> is within the threshold, no candidate is nearer and every
  earlier candidate is farther.
\<close>

definition nearest_at :: "rectangle \<Rightarrow> snap list \<Rightarrow> nat \<Rightarrow> bool" where
  "nearest_at r cs i \<longleftrightarrow>
     i < length cs
     \<and> candidate_distance_sq r (cs ! i) < (snap_threshold * 3) * (snap_threshold * 3)
     \<and> (\<forall>j < length cs. candidate_distance_sq r (cs ! i) \<le> candidate_distance_sq r (cs ! j))
     \<and> (\<forall>j < i. candidate_distance_sq r (cs ! i) < candidate_distance_sq r (cs ! j))"

subsection \<open>\<^verbatim>\<open>_would_overlap\<close> and \<^verbatim>\<open>_find_non_overlapping_position\<close>\<close>

definition intersects :: "rectangle \<Rightarrow> int \<Rightarrow> int \<Rightarrow> rectangle \<Rightarrow> bool" where
  "intersects dragged_alloc new_x new_y other_alloc =
     (new_x < alloc_x other_alloc + alloc_width other_alloc
      \<and> new_x + alloc_width dragged_alloc > alloc_x other_alloc
      \<and> new_y < alloc_y other_alloc + alloc_height other_alloc
      \<and> new_y + alloc_height dragged_alloc > alloc_y other_alloc)"

fun would_overlap ::
  "string \<Rightarrow> rectangle \<Rightarrow> (string \<times> display_widget) list \<Rightarrow> int \<Rightarrow> int \<Rightarrow> bool" where
  "would_overlap dragged_name dragged_alloc [] new_x new_y = False"
| "would_overlap dragged_name dragged_alloc ((nm, widget) # rest) new_x new_y =
     (if nm = dragged_name then would_overlap dragged_name dragged_alloc rest new_x new_y
      else if intersects dragged_alloc new_x new_y (allocation widget) then True
      else would_overlap dragged_name dragged_alloc rest new_x new_y)"

definition test_positions :: "(int \<times> int) list" where
  "test_positions = [(20, 20), (200, 20), (400, 20), (20, 150), (200, 150)]"

definition move :: "string \<Rightarrow> int \<Rightarrow> int \<Rightarrow> xrandr_gui \<Rightarrow> xrandr_gui" where
  "move key new_x new_y s =
     update_widget key
       (\<lambda>w. w\<lparr>allocation := (allocation w)\<lparr>alloc_x := new_x, alloc_y := new_y\<rparr>\<rparr>) s"

fun first_free ::
  "string \<Rightarrow> rectangle \<Rightarrow> (string \<times> display_widget) list \<Rightarrow> (int \<times> int) list
     \<Rightarrow> (int \<times> int) option" where
  "first_free dragged_name dragged_alloc widgets [] = None"
| "first_free dragged_name dragged_alloc widgets ((px, py) # rest) =
     (if \<not> would_overlap dragged_name dragged_alloc widgets px py then Some (px, py)
      else first_free dragged_name dragged_alloc widgets rest)"

definition find_non_overlapping_position :: "string \<Rightarrow> xrandr_gui \<Rightarrow> xrandr_gui" where
  "find_non_overlapping_position key s =
     (case map_of (display_widgets s) key of
        None \<Rightarrow> s
      | Some widget \<Rightarrow>
          (case first_free key (allocation widget) (display_widgets s) test_positions of
             Some (px, py) \<Rightarrow> move key px py s
           | None \<Rightarrow> s))"

subsection \<open>The release handler\<close>

text \<open>
  The dragged widget is named by its key in \<open>display_widgets\<close>, which is
  \<^verbatim>\<open>dragged_display.name\<close>. A tuple of four is true in Python, so
  \<^verbatim>\<open>if best_snap:\<close> asks whether a candidate was stored.
\<close>

definition snap_widget_position :: "string \<Rightarrow> xrandr_gui \<Rightarrow> xrandr_gui" where
  "snap_widget_position key s =
     (case map_of (display_widgets s) key of
        None \<Rightarrow> s
      | Some dragged_widget \<Rightarrow>
          (case find_best_snap key (allocation dragged_widget) (display_widgets s) of
             Some (snap_x, snap_y, relative_to, direction) \<Rightarrow>
               if \<not> would_overlap key (allocation dragged_widget) (display_widgets s) snap_x snap_y
               then show_status (''Snapped '' @ key @ '' '' @ direction @ '' '' @ relative_to)
                      ((update_widget key (\<lambda>w. w\<lparr>has_pending_changes := True\<rparr>)
                         (move key snap_x snap_y s))
                        \<lparr>pending_layout_changes :=
                           AList.update key (relative_to, direction) (pending_layout_changes s),
                         apply_layout_btn := True\<rparr>)
               else s
           | None \<Rightarrow> find_non_overlapping_position key s))"

section \<open>Applying the pending changes (\<^verbatim>\<open>XrandrGUI.on_apply_layout_clicked\<close>)\<close>

text \<open>
  \<^verbatim>\<open>subprocess.run(cmd, capture_output=True, text=True)\<close> either returns a result
  with \<^verbatim>\<open>returncode\<close> and \<^verbatim>\<open>stderr\<close>, or raises an exception \<^verbatim>\<open>e\<close>, of
  which the handler uses \<^verbatim>\<open>str(e)\<close>. What the command does is outside the program:
  the model takes it as a parameter \<open>run\<close>, a function of the command and the state
  \<open>'w\<close> of the world outside, which it may change.
\<close>

datatype run_result = Completed int string | Raised string

type_synonym 'w subprocess = "string list \<Rightarrow> 'w \<Rightarrow> run_result \<times> 'w"

definition strip :: "string \<Rightarrow> string" where
  "strip s = rev (dropWhile is_space (rev (dropWhile is_space s)))"

definition reposition_cmd :: "string \<times> string \<times> string \<Rightarrow> string list" where
  "reposition_cmd entry =
     (case entry of (display_name, relative_to, direction) \<Rightarrow>
        [''xrandr'', ''--output'', display_name, ''--'' @ direction, relative_to])"

text \<open>
  The loop's state: the world, the commands passed to \<^verbatim>\<open>subprocess.run\<close> so far
  (the oldest first), \<^verbatim>\<open>success_count\<close>, and the window (for its status bar).
\<close>

definition apply_entry ::
  "'w subprocess \<Rightarrow> string \<times> string \<times> string
     \<Rightarrow> 'w \<times> string list list \<times> nat \<times> xrandr_gui \<Rightarrow> 'w \<times> string list list \<times> nat \<times> xrandr_gui" where
  "apply_entry run entry st =
     (case st of (world, issued, success_count, s) \<Rightarrow>
        let cmd = reposition_cmd entry
        in (case run cmd world of
              (Completed returncode stderr, world') \<Rightarrow>
                if returncode = 0 then (world', issued @ [cmd], success_count + 1, s)
                else let error = (if strip stderr \<noteq> [] then strip stderr else ''Unknown error'')
                     in (world', issued @ [cmd], success_count,
                         show_status (''Failed to position '' @ fst entry @ '': '' @ error) s)
            | (Raised e, world') \<Rightarrow>
                (world', issued @ [cmd], success_count,
                 show_status (''Error positioning '' @ fst entry @ '': '' @ e) s)))"

text \<open>
  The handler returns the world, the commands it issued and the window. The refresh it
  schedules for half a second later (\<^verbatim>\<open>GLib.timeout_add\<close>) is a later event and not
  part of it.
\<close>

definition on_apply_layout_clicked ::
  "'w subprocess \<Rightarrow> 'w \<Rightarrow> xrandr_gui \<Rightarrow> 'w \<times> string list list \<times> xrandr_gui" where
  "on_apply_layout_clicked run world s =
     (if pending_layout_changes s = [] then (world, [], s)
      else case fold (apply_entry run) (pending_layout_changes s) (world, [], 0, s) of
             (world', issued, success_count, s1) \<Rightarrow>
               let s2 = (if success_count > 0
                         then show_status (''Applied '' @ str_nat success_count @ '' layout change(s)'') s1
                         else s1)
               in (world', issued,
                   s2\<lparr>pending_layout_changes := [],
                      display_widgets :=
                        map (\<lambda>(nm, w). (nm, w\<lparr>has_pending_changes := False\<rparr>)) (display_widgets s2),
                      apply_layout_btn := False\<rparr>))"

text \<open>
  For the statements about the handler: the results the commands of a list get when they
  are run one after the other (with the world after the last), what the loop reports for
  an entry with a given result, and whether a result counts as a success.
\<close>

fun run_all :: "'w subprocess \<Rightarrow> string list list \<Rightarrow> 'w \<Rightarrow> run_result list \<times> 'w" where
  "run_all run [] world = ([], world)"
| "run_all run (cmd # cmds) world =
     (case run cmd world of
        (res, world') \<Rightarrow> (case run_all run cmds world' of (rs, world'') \<Rightarrow> (res # rs, world'')))"

fun failure_report :: "string \<times> string \<times> string \<Rightarrow> run_result \<Rightarrow> string list" where
  "failure_report entry (Completed returncode stderr) =
     (if returncode = 0 then []
      else [''Failed to position '' @ fst entry @ '': ''
              @ (if strip stderr \<noteq> [] then strip stderr else ''Unknown error'')])"
| "failure_report entry (Raised e) = [''Error positioning '' @ fst entry @ '': '' @ e]"

fun succeeded :: "run_result \<Rightarrow> bool" where
  "succeeded (Completed returncode stderr) = (returncode = 0)"
| "succeeded (Raised e) = False"

text \<open>
  Every widget that shows the mark of a pending change has an entry in
  \<open>pending_layout_changes\<close>. The release handler sets both together, and the apply
  handler and a refresh clear both.
\<close>

definition pending_flags_covered :: "xrandr_gui \<Rightarrow> bool" where
  "pending_flags_covered s \<longleftrightarrow>
     (\<forall>item \<in> set (display_widgets s).
        has_pending_changes (snd item) \<longrightarrow> map_of (pending_layout_changes s) (fst item) \<noteq> None)"

section \<open>Example states\<close>

text \<open>
  A display of 1920 by 1080 as the parser builds it, a widget of 100 by 60 for it at a
  place in the container, and the window after a refresh: no selection, nothing pending.
\<close>

definition example_display :: "string \<Rightarrow> int \<Rightarrow> int \<Rightarrow> display" where
  "example_display nm px py = new_display nm False (1920, 1080, px, py)"

definition example_widget :: "string \<Rightarrow> int \<Rightarrow> int \<Rightarrow> string \<times> display_widget" where
  "example_widget nm ax ay =
     (nm, fresh_widget \<lparr>alloc_x = ax, alloc_y = ay, alloc_width = 100, alloc_height = 60\<rparr>
            (example_display nm 0 0))"

definition example_gui :: "(string \<times> display_widget) list \<Rightarrow> xrandr_gui" where
  "example_gui widgets =
     \<lparr>displays = map (\<lambda>item. display (snd item)) widgets, display_widgets = widgets,
      source_display = None, target_display = None, pending_layout_changes = [],
      action_btns = False, apply_layout_btn = False, unlink_mirror_btn = False, status = []\<rparr>"

definition two_displays :: xrandr_gui where
  "two_displays = example_gui [example_widget ''A'' 20 20, example_widget ''B'' 130 20]"

text \<open>
  \<^verbatim>\<open>B\<close> and \<^verbatim>\<open>C\<close> stand side by side; \<^verbatim>\<open>A\<close> has been dropped on top of
  \<^verbatim>\<open>C\<close>, ten units right of and below the place right of \<^verbatim>\<open>B\<close>.
\<close>

definition vetoed_drop :: xrandr_gui where
  "vetoed_drop =
     example_gui [example_widget ''A'' 110 10, example_widget ''B'' 0 0, example_widget ''C'' 100 0]"

definition disconnected_modes_text :: string where
  "disconnected_modes_text =
     ''HDMI-1 connected 1920x1080+0+0'' @ [CHR 0x0A] @
     ''   1920x1080     60.00*+'' @ [CHR 0x0A] @
     ''DP-1 disconnected'' @ [CHR 0x0A] @
     ''   1280x720      59.94*'' @ [CHR 0x0A]"

text \<open>Three monitors, two of them at the origin, and a place for each widget.\<close>

definition three_displays :: "display list" where
  "three_displays =
     [example_display ''A'' 0 0, example_display ''B'' 0 0, example_display ''C'' 1920 0]"

definition example_place :: "nat \<Rightarrow> display \<Rightarrow> rectangle" where
  "example_place i d =
     \<lparr>alloc_x = 20 + 10 * int i, alloc_y = 20, alloc_width = 100, alloc_height = 60\<rparr>"

text \<open>
  \<^verbatim>\<open>A\<close> has been dropped halfway between the place right of \<^verbatim>\<open>B\<close> and the place
  left of \<^verbatim>\<open>C\<close>, fifty units from each.
\<close>

definition tied_drop :: xrandr_gui where
  "tied_drop =
     example_gui [example_widget ''A'' 150 0, example_widget ''B'' 0 0, example_widget ''C'' 300 0]"

text \<open>
  The state after the release in \<open>tied_drop\<close>: one pending change, for \<^verbatim>\<open>A\<close>. And
  two worlds: one where the command cannot be started, so that \<^verbatim>\<open>subprocess.run\<close>
  raises, and one where it exits with status 1 and a message on \<^verbatim>\<open>stderr\<close>.
\<close>

definition one_pending :: xrandr_gui where
  "one_pending = snap_widget_position ''A'' tied_drop"

definition raising_run :: "unit subprocess" where
  "raising_run cmd world = (Raised ''[Errno 2] No such file or directory'', world)"

definition failing_run :: "unit subprocess" where
  "failing_run cmd world = (Completed 1 (''xrandr: cannot find output'' @ [CHR 0x0A]), world)"

text \<open>
  A query output whose second header is connected and has no geometry, as the query tool
  prints for an output that is connected and switched off.
\<close>

definition no_geometry_text :: string where
  "no_geometry_text =
     ''HDMI-1 connected primary 1280x720+0+0'' @ [CHR 0x0A] @
     ''DP-1 connected (normal left inverted right x axis y axis)'' @ [CHR 0x0A] @
     ''   1024x768      75.03*'' @ [CHR 0x0A]"

text \<open>
  \<^verbatim>\<open>A\<close> has been dropped as in \<open>tied_drop\<close>, and a fourth widget \<^verbatim>\<open>D\<close>, first
  in the dictionary, stands below it: the place above \<^verbatim>\<open>D\<close> is seventy units from
  \<^verbatim>\<open>A\<close>, within the threshold and farther than the two places at fifty.
\<close>

definition nearest_drop :: xrandr_gui where
  "nearest_drop =
     example_gui [example_widget ''D'' 150 130, example_widget ''A'' 150 0,
                  example_widget ''B'' 0 0, example_widget ''C'' 300 0]"

section \<open>Theorems\<close>

subsection \<open>Parser\<close>

lemma split_lines_single: "CHR 0x0A \<notin> set l \<Longrightarrow> split_lines l = [l]"
  by (induction l) auto

lemma split_lines_first:
  "CHR 0x0A \<notin> set l \<Longrightarrow> split_lines (l @ CHR 0x0A # r) = l # split_lines r"
  by (induction l) auto

lemma space_chars [simp]: "is_space CHR '' ''" "is_space CHR 0x0A"
  by (simp_all add: is_space_def)

lemma digit_not_space: "is_digit c \<Longrightarrow> \<not> is_space c"
  by (auto simp add: is_digit_def is_space_def Let_def)

lemma digit_chars:
  "is_digit c \<Longrightarrow> c \<noteq> CHR ''x''" "is_digit c \<Longrightarrow> c \<noteq> CHR ''+''"
  "is_digit c \<Longrightarrow> c \<noteq> CHR ''-''" "is_digit c \<Longrightarrow> c \<noteq> CHR ''p''"
  by (auto simp add: is_digit_def Let_def)

lemma not_digit_chars [simp]:
  "\<not> is_digit CHR ''x''" "\<not> is_digit CHR ''+''" "\<not> is_digit CHR ''-''" "\<not> is_digit CHR '' ''"
  by (simp_all add: is_digit_def)

text \<open>A run of a class followed by a character outside it.\<close>

lemma takeWhile_run:
  "\<forall>c \<in> set run. P c \<Longrightarrow> rest = [] \<or> \<not> P (hd rest) \<Longrightarrow> takeWhile P (run @ rest) = run"
  by (cases rest) (simp_all add: takeWhile_append2)

lemma decimal_value_nonneg_aux:
  "\<forall>c \<in> set s. is_digit c \<Longrightarrow> 0 \<le> a \<Longrightarrow> 0 \<le> foldl (\<lambda>a c. 10 * a + digit_value c) a s"
proof (induction s arbitrary: a)
  case Nil
  then show ?case by simp
next
  case (Cons c s)
  have "0 \<le> digit_value c" using Cons.prems(1) by (simp add: is_digit_def digit_value_def Let_def)
  then have "0 \<le> 10 * a + digit_value c" using Cons.prems(2) by simp
  then show ?case using Cons.IH Cons.prems(1) by simp
qed

lemma decimal_value_nonneg: "\<forall>c \<in> set s. is_digit c \<Longrightarrow> 0 \<le> decimal_value s"
  unfolding decimal_value_def by (rule decimal_value_nonneg_aux) simp_all

lemma takeWhile_digits_cons:
  "\<forall>c \<in> set ds. is_digit c \<Longrightarrow> \<not> is_digit c' \<Longrightarrow> takeWhile is_digit (ds @ c' # rest) = ds"
  by (simp add: takeWhile_append2)

lemma dropWhile_digits_cons:
  "\<forall>c \<in> set ds. is_digit c \<Longrightarrow> \<not> is_digit c' \<Longrightarrow>
     dropWhile is_digit (ds @ c' # rest) = c' # rest"
  by (simp add: dropWhile_append2)

lemma match_geometry_signed:
  assumes w: "w \<noteq> []" "\<forall>c \<in> set w. is_digit c"
    and h: "h \<noteq> []" "\<forall>c \<in> set h. is_digit c"
    and px: "px \<noteq> []" "\<forall>c \<in> set px. is_digit c"
    and py: "py \<noteq> []" "\<forall>c \<in> set py. is_digit c"
    and sx: "sx = ''+'' \<or> sx = ''-'' \<or> sx = ''+-''"
    and sy: "sy = ''+'' \<or> sy = ''-'' \<or> sy = ''+-''"
    and rest: "rest = [] \<or> \<not> is_digit (hd rest)"
  shows "match_geometry (w @ ''x'' @ h @ sx @ px @ sy @ py @ rest)
         = (if sx = ''+'' \<and> sy = ''+'' then Some (w, h, px, py) else None)"
proof -
  have g7: "takeWhile is_digit (py @ rest) = py"
    using py(2) rest by (rule takeWhile_run)
  show ?thesis
    using sx sy w h px py(1) g7
    by (elim disjE)
       (simp_all add: match_geometry_def Let_def expect_def
          takeWhile_digits_cons dropWhile_digits_cons)
qed


lemma not_space_chars [simp]: "\<not> is_space CHR ''c''" "\<not> is_space CHR ''p''"
  by (simp_all add: is_space_def)

lemma match_header_connected:
  assumes nm: "nm \<noteq> []" "\<forall>c \<in> set nm. \<not> is_space c"
    and tail: "tail \<noteq> []" "is_digit (hd tail)"
  shows "match_header (nm @ '' connected '' @ (if pr then ''primary '' else []) @ tail)
         = Some (nm, True, pr, match_geometry tail)"
proof -
  obtain t ts where t: "tail = t # ts" "is_digit t" "\<not> is_space t" "t \<noteq> CHR ''p''"
    using tail digit_not_space digit_chars(4) by (cases tail) auto
  have g1: "takeWhile (\<lambda>c. \<not> is_space c) (nm @ CHR '' '' # s) = nm" for s
    using nm(2) by (simp add: takeWhile_append2)
  have s1: "dropWhile (\<lambda>c. \<not> is_space c) (nm @ CHR '' '' # s) = CHR '' '' # s" for s
    using nm(2) by (simp add: dropWhile_append2)
  show ?thesis
    using nm(1) t
    by (cases pr)
       (simp_all add: match_header_def match_state_def Let_def g1 s1 expect_def)
qed

lemma py_int_digits: "length s \<le> 4300 \<Longrightarrow> py_int s = Inr (decimal_value s)"
  by (simp add: py_int_def int_max_str_digits_def)


lemma no_line_feed_in_digits: "\<forall>c \<in> set s. is_digit c \<Longrightarrow> CHR 0x0A \<notin> set s"
  by (auto simp add: is_digit_def)

lemma no_line_feed_in_token: "\<forall>c \<in> set s. \<not> is_space c \<Longrightarrow> CHR 0x0A \<notin> set s"
  by auto

lemma parse_single_line:
  assumes "CHR 0x0A \<notin> set line" "parse_line line ([], None) = Inr (ds, cur)"
  shows "parse_xrandr_output line = Inr ds"
  using assms by (simp add: parse_xrandr_output_def split_lines_single)

lemma geometry_offsets_header:
  assumes nm: "nm \<noteq> []" "\<forall>c \<in> set nm. \<not> is_space c"
    and w: "w \<noteq> []" "\<forall>c \<in> set w. is_digit c" "length w \<le> 4300"
    and h: "h \<noteq> []" "\<forall>c \<in> set h. is_digit c" "length h \<le> 4300"
    and px: "px \<noteq> []" "\<forall>c \<in> set px. is_digit c" "length px \<le> 4300"
    and py: "py \<noteq> []" "\<forall>c \<in> set py. is_digit c" "length py \<le> 4300"
    and sx: "sx = ''+'' \<or> sx = ''-'' \<or> sx = ''+-''"
    and sy: "sy = ''+'' \<or> sy = ''-'' \<or> sy = ''+-''"
    and rest: "rest = [] \<or> \<not> is_digit (hd rest)"
  shows "parse_line
           (nm @ '' connected '' @ (if pr then ''primary '' else []) @
            w @ ''x'' @ h @ sx @ px @ sy @ py @ rest) (ds, cur)
         = Inr (ds @ [new_display nm pr
                        (if sx = ''+'' \<and> sy = ''+''
                         then (decimal_value w, decimal_value h, decimal_value px, decimal_value py)
                         else (1920, 1080, 0, 0))],
                Some (length ds))"
proof -
  let ?tail = "w @ ''x'' @ h @ sx @ px @ sy @ py @ rest"
  let ?line = "nm @ '' connected '' @ (if pr then ''primary '' else []) @ ?tail"
  let ?geo = "if sx = ''+'' \<and> sy = ''+''
              then (decimal_value w, decimal_value h, decimal_value px, decimal_value py)
              else (1920, 1080, 0, 0)"
  have tail: "?tail \<noteq> []" "is_digit (hd ?tail)" using w by simp_all
  have hd: "match_header ?line = Some (nm, True, pr, match_geometry ?tail)"
    using nm tail by (rule match_header_connected)
  have geo: "match_geometry ?tail = (if sx = ''+'' \<and> sy = ''+'' then Some (w, h, px, py) else None)"
    using w(1,2) h(1,2) px(1,2) py(1,2) sx sy rest by (rule match_geometry_signed)
  have god: "geometry_or_default (match_geometry ?tail) = Inr ?geo"
    unfolding geo using w(3) h(3) px(3) py(3)
    by (simp add: geometry_or_default_def py_int_digits)
  show ?thesis
    unfolding parse_line_def hd using god by simp
qed

lemma mode_line_first_a:
  "mode_line ''   1920x1080     60.00*+'' d
   = (if ''1920x1080'' \<in> set (modes d) then d else d\<lparr>modes := modes d @ [''1920x1080'']\<rparr>)
       \<lparr>current_mode := ''1920x1080'', current_rate := ''60.00''\<rparr>"
proof -
  have m: "match_mode ''   1920x1080     60.00*+'' = Some ''1920x1080''" by code_simp
  have r: "search_rate ''   1920x1080     60.00*+'' = Some ''60.00''" by code_simp
  have st: "CHR ''*'' \<in> set ''   1920x1080     60.00*+''" by simp
  show ?thesis
    unfolding mode_line_def m r Let_def using st by (simp only: option.case if_True)
qed

lemma mode_line_second_a:
  "mode_line ''   1280x720      59.94'' d
   = (if ''1280x720'' \<in> set (modes d) then d else d\<lparr>modes := modes d @ [''1280x720'']\<rparr>)"
proof -
  have m: "match_mode ''   1280x720      59.94'' = Some ''1280x720''" by code_simp
  have st: "CHR ''*'' \<notin> set ''   1280x720      59.94''" by simp
  show ?thesis
    unfolding mode_line_def m Let_def using st by (simp only: option.case if_False)
qed

lemma mode_line_is_not_header:
  "line \<noteq> [] \<Longrightarrow> is_space (hd line) \<Longrightarrow> match_header line = None"
  by (cases line) (simp_all add: match_header_def)

lemma parse_mode_line:
  assumes "take 3 line = ''   ''"
  shows "parse_line line (ds, Some i) = Inr (ds[i := mode_line line (ds ! i)], Some i)"
proof -
  have "line \<noteq> []" "hd line = CHR '' ''" using assms by (cases line; simp)+
  then have "match_header line = None"
    by (simp add: mode_line_is_not_header is_space_def)
  then show ?thesis using assms by (simp add: parse_line_def)
qed

lemma mode_line_first:
  "parse_line ''   1920x1080     60.00*+'' ([new_display nm pr (1920, 1080, 0, 0)], Some 0)
   = Inr ([(new_display nm pr (1920, 1080, 0, 0))
             \<lparr>modes := [''1920x1080''], current_mode := ''1920x1080'',
              current_rate := ''60.00''\<rparr>], Some 0)"
proof -
  have "take 3 ''   1920x1080     60.00*+'' = ''   ''" by simp
  then have "parse_line ''   1920x1080     60.00*+'' ([new_display nm pr (1920, 1080, 0, 0)], Some 0)
      = Inr ([new_display nm pr (1920, 1080, 0, 0)]
               [0 := mode_line ''   1920x1080     60.00*+''
                       ([new_display nm pr (1920, 1080, 0, 0)] ! 0)], Some 0)"
    by (rule parse_mode_line)
  moreover have "modes (new_display nm pr (1920, 1080, 0, 0)) = []"
    by (simp add: new_display_def)
  ultimately show ?thesis
    by (simp add: mode_line_first_a)
qed

lemma mode_line_second:
  "parse_line ''   1280x720      59.94''
     ([(new_display nm pr (1920, 1080, 0, 0))
             \<lparr>modes := [''1920x1080''], current_mode := ''1920x1080'',
              current_rate := ''60.00''\<rparr>], Some 0)
   = Inr ([(new_display nm pr (1920, 1080, 0, 0))
             \<lparr>modes := [''1920x1080'', ''1280x720''], current_mode := ''1920x1080'',
              current_rate := ''60.00''\<rparr>], Some 0)"
proof -
  let ?d1 = "(new_display nm pr (1920, 1080, 0, 0))
             \<lparr>modes := [''1920x1080''], current_mode := ''1920x1080'',
              current_rate := ''60.00''\<rparr>"
  have "take 3 ''   1280x720      59.94'' = ''   ''" by simp
  then have "parse_line ''   1280x720      59.94'' ([?d1], Some 0)
      = Inr ([?d1][0 := mode_line ''   1280x720      59.94'' ([?d1] ! 0)], Some 0)"
    by (rule parse_mode_line)
  then show ?thesis
    by (simp add: mode_line_second_a)
qed

lemma empty_line: "parse_line [] st = Inr st"
proof -
  have "match_header [] = None" by (simp add: match_header_def)
  then show ?thesis by (cases st) (simp add: parse_line_def split: option.splits)
qed

text \<open>
  Claim C3: for a query output of a header line with a name token, \<^verbatim>\<open>connected\<close> and
  the geometry \<^verbatim>\<open>1920x1080+0+0\<close>, followed by the mode lines
  \<^verbatim>\<open>   1920x1080     60.00*+\<close> and \<^verbatim>\<open>   1280x720      59.94\<close>, the parser returns
  exactly one monitor, with that name, connected, current mode \<^verbatim>\<open>1920x1080\<close>, current
  rate \<^verbatim>\<open>60.00\<close> and the modes \<^verbatim>\<open>1920x1080\<close>, \<^verbatim>\<open>1280x720\<close> in this order.
  The name is any non-empty token without white space; the header may say
  \<^verbatim>\<open>primary\<close> and may go on after the geometry (with anything but a digit), and the
  text may or may not end with a line feed.
\<close>

theorem parse_example_block:
  assumes nm: "nm \<noteq> []" "\<forall>c \<in> set nm. \<not> is_space c"
    and rest: "rest = [] \<or> \<not> is_digit (hd rest)" "CHR 0x0A \<notin> set rest"
    and fin: "fin = [] \<or> fin = [CHR 0x0A]"
  shows "parse_xrandr_output
           (nm @ '' connected '' @ (if pr then ''primary '' else []) @ ''1920x1080+0+0'' @ rest
            @ [CHR 0x0A] @ ''   1920x1080     60.00*+''
            @ [CHR 0x0A] @ ''   1280x720      59.94'' @ fin)
         = Inr [\<lparr>name = nm, width = 1920, height = 1080, x = 0, y = 0,
                  is_primary = pr, is_connected = True,
                  modes = [''1920x1080'', ''1280x720''],
                  current_mode = ''1920x1080'', current_rate = ''60.00''\<rparr>]"
proof -
  let ?header = "nm @ '' connected '' @ (if pr then ''primary '' else []) @ ''1920x1080+0+0'' @ rest"
  let ?l1 = "''   1920x1080     60.00*+''"
  let ?l2 = "''   1280x720      59.94''"
  let ?d0 = "new_display nm pr (1920, 1080, 0, 0)"
  let ?d2 = "\<lparr>name = nm, width = 1920, height = 1080, x = 0, y = 0,
                  is_primary = pr, is_connected = True,
                  modes = [''1920x1080'', ''1280x720''],
                  current_mode = ''1920x1080'', current_rate = ''60.00''\<rparr>"
  have v: "decimal_value ''1920'' = 1920" "decimal_value ''1080'' = 1080" "decimal_value ''0'' = 0"
    by (simp_all add: decimal_value_def digit_value_def)
  have digits: "\<forall>c \<in> set ''1920''. is_digit c" "\<forall>c \<in> set ''1080''. is_digit c"
      "\<forall>c \<in> set ''0''. is_digit c"
    by (simp_all add: is_digit_def)
  have "parse_line
          (nm @ '' connected '' @ (if pr then ''primary '' else []) @
           ''1920'' @ ''x'' @ ''1080'' @ ''+'' @ ''0'' @ ''+'' @ ''0'' @ rest) ([], None)
        = Inr ([] @ [new_display nm pr
                       (if ''+'' = ''+'' \<and> ''+'' = ''+''
                        then (decimal_value ''1920'', decimal_value ''1080'',
                              decimal_value ''0'', decimal_value ''0'')
                        else (1920, 1080, 0, 0))], Some (length ([] :: display list)))"
    by (rule geometry_offsets_header [OF nm _ digits(1) _ _ digits(2) _ _ digits(3) _ _ digits(3) _ _ _ rest(1)])
       simp_all
  then have l0: "parse_line ?header ([], None) = Inr ([?d0], Some 0)"
    by (simp add: v)
  have s: "str_int 1920 = ''1920''" "str_int 1080 = ''1080''" by code_simp+
  have d: "?d0\<lparr>modes := [''1920x1080'', ''1280x720''], current_mode := ''1920x1080'',
              current_rate := ''60.00''\<rparr> = ?d2"
    by (simp add: new_display_def s)
  have run: "parse_lines [?header, ?l1, ?l2] ([], None) = Inr ([?d2], Some 0)"
    by (simp only: parse_lines.simps l0 mode_line_first mode_line_second sum.case d)
  have run': "parse_lines [?header, ?l1, ?l2, []] ([], None) = Inr ([?d2], Some 0)"
    by (simp only: parse_lines.simps l0 mode_line_first mode_line_second empty_line sum.case d)
  have nl0: "CHR 0x0A \<notin> set ?header"
    using no_line_feed_in_token [OF nm(2)] rest(2) by auto
  have nl1: "CHR 0x0A \<notin> set ?l1" and nl2: "CHR 0x0A \<notin> set ?l2" by simp_all
  have first: "split_lines (?header @ CHR 0x0A # (?l1 @ CHR 0x0A # t))
               = ?header # ?l1 # split_lines t" for t
    by (simp only: split_lines_first [OF nl0] split_lines_first [OF nl1])
  have lines: "split_lines (?header @ CHR 0x0A # (?l1 @ CHR 0x0A # ?l2)) = [?header, ?l1, ?l2]"
    by (simp only: first split_lines_single [OF nl2])
  have lines': "split_lines (?header @ CHR 0x0A # (?l1 @ CHR 0x0A # (?l2 @ [CHR 0x0A])))
                = [?header, ?l1, ?l2, []]"
    by (simp only: first split_lines_first [OF nl2] split_lines.simps)
  have out: "parse_xrandr_output (?header @ CHR 0x0A # (?l1 @ CHR 0x0A # ?l2)) = Inr [?d2]"
    by (simp only: parse_xrandr_output_def lines run sum.case fst_conv)
  have out': "parse_xrandr_output (?header @ CHR 0x0A # (?l1 @ CHR 0x0A # (?l2 @ [CHR 0x0A])))
              = Inr [?d2]"
    by (simp only: parse_xrandr_output_def lines' run' sum.case fst_conv)
  show ?thesis
  proof (cases "fin = []")
    case True
    have "nm @ '' connected '' @ (if pr then ''primary '' else []) @ ''1920x1080+0+0'' @ rest
            @ [CHR 0x0A] @ ?l1 @ [CHR 0x0A] @ ?l2 @ fin
          = ?header @ CHR 0x0A # (?l1 @ CHR 0x0A # ?l2)"
      using True by simp
    then show ?thesis using out by (simp only:)
  next
    case False
    then have "fin = [CHR 0x0A]" using fin by simp
    then have "nm @ '' connected '' @ (if pr then ''primary '' else []) @ ''1920x1080+0+0'' @ rest
            @ [CHR 0x0A] @ ?l1 @ [CHR 0x0A] @ ?l2 @ fin
          = ?header @ CHR 0x0A # (?l1 @ CHR 0x0A # (?l2 @ [CHR 0x0A]))"
      by simp
    then show ?thesis using out' by (simp only:)
  qed
qed


theorem parse_example_block_witness:
  "parse_xrandr_output
     (''HDMI-1 connected 1920x1080+0+0 (normal left inverted right x axis y axis) 527mm x 296mm''
      @ [CHR 0x0A] @ ''   1920x1080     60.00*+''
      @ [CHR 0x0A] @ ''   1280x720      59.94'' @ [CHR 0x0A])
   = Inr [\<lparr>name = ''HDMI-1'', width = 1920, height = 1080, x = 0, y = 0,
            is_primary = False, is_connected = True,
            modes = [''1920x1080'', ''1280x720''],
            current_mode = ''1920x1080'', current_rate = ''60.00''\<rparr>]"
proof -
  have nm: "''HDMI-1'' \<noteq> []" "\<forall>c \<in> set ''HDMI-1''. \<not> is_space c"
    by (simp_all add: is_space_def)
  have rest: "'' (normal left inverted right x axis y axis) 527mm x 296mm'' = []
        \<or> \<not> is_digit (hd '' (normal left inverted right x axis y axis) 527mm x 296mm'')"
      "CHR 0x0A \<notin> set '' (normal left inverted right x axis y axis) 527mm x 296mm''"
    by simp_all
  have fin: "[CHR 0x0A] = [] \<or> [CHR 0x0A] = [CHR 0x0A]" by simp
  show ?thesis
    using parse_example_block [OF nm rest fin, of False] by simp
qed

text \<open>
  Claim C4 says that a header line starts a new current-monitor context whatever its
  connection state, so that mode lines after a \<^verbatim>\<open>disconnected\<close> header never reach
  a monitor parsed earlier. The code breaks it: a disconnected header leaves
  \<^verbatim>\<open>current_display\<close> as it was, and the mode line under \<^verbatim>\<open>DP-1 disconnected\<close>
  is added to \<^verbatim>\<open>HDMI-1\<close>, whose current mode and rate it also overwrites.
\<close>

theorem modes_after_disconnected_header:
  "parse_xrandr_output disconnected_modes_text =
     Inr [\<lparr>name = ''HDMI-1'', width = 1920, height = 1080, x = 0, y = 0,
          is_primary = False, is_connected = True,
          modes = [''1920x1080'', ''1280x720''], current_mode = ''1280x720'',
          current_rate = ''59.94''\<rparr>]"
  by code_simp

text \<open>
  Claim C8 says that a connected header whose geometry token carries negative offsets
  yields a record with those negative coordinates. The code does not: the header pattern
  reads an offset as \<^verbatim>\<open>\+(\d+)\<close>, so a token with a minus sign, written
  \<^verbatim>\<open>+-1280\<close> (as the query tool prints a negative number) or \<^verbatim>\<open>-1280\<close>, does
  not match the optional geometry group, and the monitor gets the default geometry.
\<close>

theorem negative_offset_counterexample:
  "parse_xrandr_output ''DP-1 connected 1280x720+-1280+0''
     = Inr [\<lparr>name = ''DP-1'', width = 1920, height = 1080, x = 0, y = 0,
             is_primary = False, is_connected = True, modes = [],
             current_mode = ''1920x1080'', current_rate = ''60.00''\<rparr>]
   \<and> parse_xrandr_output ''DP-1 connected 1280x720-1280+0''
     = Inr [\<lparr>name = ''DP-1'', width = 1920, height = 1080, x = 0, y = 0,
             is_primary = False, is_connected = True, modes = [],
             current_mode = ''1920x1080'', current_rate = ''60.00''\<rparr>]"
  by code_simp


text \<open>
  Claim C8 as amended: for a connected header whose geometry token is
  \<^verbatim>\<open>WxH\<close> followed by two offsets, each with the sign \<^verbatim>\<open>+\<close>, \<^verbatim>\<open>-\<close> or
  \<^verbatim>\<open>+-\<close> (every number of at most 4300 digits), the parser yields one record; when
  both signs are \<^verbatim>\<open>+\<close> its size and position are the four numbers, and otherwise they
  are the default 1920 by 1080 at \<open>(0, 0)\<close>. In both cases \<open>x\<close> and \<open>y\<close> are not
  negative.
\<close>

theorem geometry_offsets_unsigned:
  assumes nm: "nm \<noteq> []" "\<forall>c \<in> set nm. \<not> is_space c"
    and w: "w \<noteq> []" "\<forall>c \<in> set w. is_digit c" "length w \<le> 4300"
    and h: "h \<noteq> []" "\<forall>c \<in> set h. is_digit c" "length h \<le> 4300"
    and px: "px \<noteq> []" "\<forall>c \<in> set px. is_digit c" "length px \<le> 4300"
    and py: "py \<noteq> []" "\<forall>c \<in> set py. is_digit c" "length py \<le> 4300"
    and sx: "sx = ''+'' \<or> sx = ''-'' \<or> sx = ''+-''"
    and sy: "sy = ''+'' \<or> sy = ''-'' \<or> sy = ''+-''"
    and rest: "rest = [] \<or> \<not> is_digit (hd rest)" "CHR 0x0A \<notin> set rest"
  shows "parse_line
           (nm @ '' connected '' @ (if pr then ''primary '' else []) @
            w @ ''x'' @ h @ sx @ px @ sy @ py @ rest) (ds, cur)
         = Inr (ds @ [new_display nm pr
                        (if sx = ''+'' \<and> sy = ''+''
                         then (decimal_value w, decimal_value h, decimal_value px, decimal_value py)
                         else (1920, 1080, 0, 0))],
                Some (length ds))
     \<and> parse_xrandr_output
           (nm @ '' connected '' @ (if pr then ''primary '' else []) @
            w @ ''x'' @ h @ sx @ px @ sy @ py @ rest)
         = Inr [new_display nm pr
                  (if sx = ''+'' \<and> sy = ''+''
                   then (decimal_value w, decimal_value h, decimal_value px, decimal_value py)
                   else (1920, 1080, 0, 0))]
     \<and> 0 \<le> x (new_display nm pr
                  (if sx = ''+'' \<and> sy = ''+''
                   then (decimal_value w, decimal_value h, decimal_value px, decimal_value py)
                   else (1920, 1080, 0, 0)))
     \<and> 0 \<le> y (new_display nm pr
                  (if sx = ''+'' \<and> sy = ''+''
                   then (decimal_value w, decimal_value h, decimal_value px, decimal_value py)
                   else (1920, 1080, 0, 0)))"
proof -
  let ?tail = "w @ ''x'' @ h @ sx @ px @ sy @ py @ rest"
  let ?line = "nm @ '' connected '' @ (if pr then ''primary '' else []) @ ?tail"
  let ?geo = "if sx = ''+'' \<and> sy = ''+''
              then (decimal_value w, decimal_value h, decimal_value px, decimal_value py)
              else (1920, 1080, 0, 0)"
  have line: "parse_line ?line (ds', cur') = Inr (ds' @ [new_display nm pr ?geo], Some (length ds'))"
    for ds' cur'
    using nm w h px py sx sy rest(1) by (rule geometry_offsets_header)
  have nl: "CHR 0x0A \<notin> set ?line"
    using no_line_feed_in_token [OF nm(2)] no_line_feed_in_digits [OF w(2)]
      no_line_feed_in_digits [OF h(2)] no_line_feed_in_digits [OF px(2)]
      no_line_feed_in_digits [OF py(2)] sx sy rest(2)
    by auto
  have whole: "parse_xrandr_output ?line = Inr [new_display nm pr ?geo]"
    using nl line [of "[]" None] by (simp add: parse_single_line)
  have "0 \<le> decimal_value px" "0 \<le> decimal_value py"
    using px(2) py(2) by (simp_all add: decimal_value_nonneg)
  then have pos: "0 \<le> x (new_display nm pr ?geo)" "0 \<le> y (new_display nm pr ?geo)"
    by (simp_all add: new_display_def)
  show ?thesis using line [of ds cur] whole pos by simp
qed

theorem geometry_offsets_unsigned_witness:
  "parse_xrandr_output ''DP-1 connected 1280x720+-1280+0''
     = Inr [new_display ''DP-1'' False (1920, 1080, 0, 0)]
   \<and> parse_xrandr_output ''DP-1 connected primary 1280x720+1280+0 (normal)''
     = Inr [new_display ''DP-1'' True (1280, 720, 1280, 0)]"
proof -
  have a: "parse_xrandr_output
             (''DP-1'' @ '' connected '' @ (if False then ''primary '' else []) @
              ''1280'' @ ''x'' @ ''720'' @ ''+-'' @ ''1280'' @ ''+'' @ ''0'' @ [])
           = Inr [new_display ''DP-1'' False
                    (if ''+-'' = ''+'' \<and> ''+'' = ''+''
                     then (decimal_value ''1280'', decimal_value ''720'',
                           decimal_value ''1280'', decimal_value ''0'')
                     else (1920, 1080, 0, 0))]"
    using geometry_offsets_unsigned
      [of "''DP-1''" "''1280''" "''720''" "''1280''" "''0''" "''+-''" "''+''" "[]" False]
    by (simp add: is_space_def is_digit_def)
  have b: "parse_xrandr_output
             (''DP-1'' @ '' connected '' @ (if True then ''primary '' else []) @
              ''1280'' @ ''x'' @ ''720'' @ ''+'' @ ''1280'' @ ''+'' @ ''0'' @ '' (normal)'')
           = Inr [new_display ''DP-1'' True
                    (if ''+'' = ''+'' \<and> ''+'' = ''+''
                     then (decimal_value ''1280'', decimal_value ''720'',
                           decimal_value ''1280'', decimal_value ''0'')
                     else (1920, 1080, 0, 0))]"
    using geometry_offsets_unsigned
      [of "''DP-1''" "''1280''" "''720''" "''1280''" "''0''" "''+''" "''+''" "'' (normal)''" True]
    by (simp add: is_space_def is_digit_def)
  have v: "decimal_value ''1280'' = 1280" "decimal_value ''720'' = 720" "decimal_value ''0'' = 0"
    by (simp_all add: decimal_value_def digit_value_def)
  show ?thesis using a b by (simp add: v)
qed

lemma match_geometry_no_digit: "\<forall>c \<in> set s. \<not> is_digit c \<Longrightarrow> match_geometry s = None"
  by (cases s) (simp_all add: match_geometry_def)

lemma header_without_digits:
  assumes nm: "nm \<noteq> []" "\<forall>c \<in> set nm. \<not> is_space c"
    and rest: "\<forall>c \<in> set rest. \<not> is_digit c"
  shows "\<exists>prim. match_header (nm @ '' connected'' @ rest) = Some (nm, True, prim, None)"
proof -
  have g1: "takeWhile (\<lambda>c. \<not> is_space c) (nm @ CHR '' '' # s) = nm" for s
    using nm(2) by (simp add: takeWhile_append2)
  have s1: "dropWhile (\<lambda>c. \<not> is_space c) (nm @ CHR '' '' # s) = CHR '' '' # s" for s
    using nm(2) by (simp add: dropWhile_append2)
  let ?s4 = "dropWhile is_space rest"
  let ?s5 = "case expect ''primary'' ?s4 of Some r \<Rightarrow> r | None \<Rightarrow> ?s4"
  have "set ?s4 \<subseteq> set rest" by (auto dest: set_dropWhileD)
  moreover have "set ?s5 \<subseteq> set ?s4"
    by (auto simp add: expect_def dest: in_set_dropD split: if_splits)
  moreover have "set (dropWhile is_space ?s5) \<subseteq> set ?s5" by (auto dest: set_dropWhileD)
  ultimately have "\<forall>c \<in> set (dropWhile is_space ?s5). \<not> is_digit c"
    using rest by blast
  then have "match_geometry (dropWhile is_space ?s5) = None"
    by (rule match_geometry_no_digit)
  then show ?thesis
    using nm(1) by (simp add: match_header_def match_state_def Let_def g1 s1 expect_def)
qed

lemma parse_lines_append:
  "parse_lines (xs @ ys) st
   = (case parse_lines xs st of Inl e \<Rightarrow> Inl e | Inr st' \<Rightarrow> parse_lines ys st')"
  by (induction xs arbitrary: st) (auto split: sum.splits)

lemma mode_line_keeps:
  "name (mode_line l d) = name d \<and> width (mode_line l d) = width d
   \<and> height (mode_line l d) = height d \<and> x (mode_line l d) = x d \<and> y (mode_line l d) = y d
   \<and> is_primary (mode_line l d) = is_primary d"
  by (simp add: mode_line_def Let_def split: option.splits)

lemma parse_line_keeps:
  assumes "parse_line l (ds, cur) = Inr (ds', cur')" "i < length ds"
  shows "i < length ds' \<and> name (ds' ! i) = name (ds ! i) \<and> width (ds' ! i) = width (ds ! i)
     \<and> height (ds' ! i) = height (ds ! i) \<and> x (ds' ! i) = x (ds ! i) \<and> y (ds' ! i) = y (ds ! i)
     \<and> is_primary (ds' ! i) = is_primary (ds ! i)"
proof (cases "match_header l")
  case None
  show ?thesis
  proof (cases cur)
    case N: None
    then show ?thesis using assms None by (simp add: parse_line_def)
  next
    case (Some j)
    then show ?thesis
      using assms None mode_line_keeps [of l "ds ! j"]
      by (cases "i = j") (auto simp add: parse_line_def split: if_splits)
  qed
next
  case (Some g)
  obtain nm conn prim geo where g: "g = (nm, conn, prim, geo)" by (cases g) auto
  show ?thesis
    using assms Some g
    by (auto simp add: parse_line_def nth_append split: if_splits sum.splits)
qed

lemma parse_lines_keeps:
  assumes "parse_lines ls (ds, cur) = Inr (ds', cur')" "i < length ds"
  shows "i < length ds' \<and> name (ds' ! i) = name (ds ! i) \<and> width (ds' ! i) = width (ds ! i)
     \<and> height (ds' ! i) = height (ds ! i) \<and> x (ds' ! i) = x (ds ! i) \<and> y (ds' ! i) = y (ds ! i)
     \<and> is_primary (ds' ! i) = is_primary (ds ! i)"
  using assms
proof (induction ls arbitrary: ds cur)
  case Nil
  then show ?case by simp
next
  case (Cons l ls)
  from Cons.prems(1) obtain ds1 cur1 where
    one: "parse_line l (ds, cur) = Inr (ds1, cur1)" and
    rest: "parse_lines ls (ds1, cur1) = Inr (ds', cur')"
    by (auto split: sum.splits)
  have k1: "i < length ds1 \<and> name (ds1 ! i) = name (ds ! i) \<and> width (ds1 ! i) = width (ds ! i)
     \<and> height (ds1 ! i) = height (ds ! i) \<and> x (ds1 ! i) = x (ds ! i) \<and> y (ds1 ! i) = y (ds ! i)
     \<and> is_primary (ds1 ! i) = is_primary (ds ! i)"
    using one Cons.prems(2) by (rule parse_line_keeps)
  then have "i < length ds1" by simp
  with Cons.IH [OF rest] k1 show ?case by simp
qed

lemma header_line_default:
  assumes "match_header line = Some (nm, True, prim, None)"
  shows "parse_line line (ds, cur)
         = Inr (ds @ [\<lparr>name = nm, width = 1920, height = 1080, x = 0, y = 0,
                        is_primary = prim, is_connected = True, modes = [],
                        current_mode = ''1920x1080'', current_rate = ''60.00''\<rparr>],
                Some (length ds))"
proof -
  have "str_int 1920 = ''1920''" "str_int 1080 = ''1080''"
    by code_simp+
  then show ?thesis
    using assms by (simp add: parse_line_def geometry_or_default_def new_display_def)
qed

text \<open>
  Claim C9: a header line that is connected and carries no geometry token (the pattern
  matches with group 2 \<^verbatim>\<open>connected\<close> and groups 4 to 7 unset; in particular every
  line of a name, a space, \<^verbatim>\<open>connected\<close> and a rest without digits) yields a monitor
  with width 1920, height 1080 and position \<open>(0, 0)\<close>, and the parser does not fail on
  it. As the only line of the output, the parser returns exactly that monitor. As any line
  of an output whose earlier lines yield the list \<open>ds\<close>, the parser goes on with the
  later lines from the list extended by that monitor, so that it fails only where a later
  line makes it fail, and in every list it returns the monitor stands at index
  \<open>length ds\<close> with that name, size and position.
\<close>

theorem missing_geometry_default:
  "(match_header line = Some (nm, True, prim, None) \<longrightarrow>
      parse_line line (ds0, cur0)
        = Inr (ds0 @ [\<lparr>name = nm, width = 1920, height = 1080, x = 0, y = 0,
                        is_primary = prim, is_connected = True, modes = [],
                        current_mode = ''1920x1080'', current_rate = ''60.00''\<rparr>],
               Some (length ds0))
    \<and> (CHR 0x0A \<notin> set line \<longrightarrow>
          parse_xrandr_output line
            = Inr [\<lparr>name = nm, width = 1920, height = 1080, x = 0, y = 0,
                     is_primary = prim, is_connected = True, modes = [],
                     current_mode = ''1920x1080'', current_rate = ''60.00''\<rparr>])
    \<and> (split_lines text = pre @ line # post \<and> parse_lines pre ([], None) = Inr (ds, cur) \<longrightarrow>
          parse_xrandr_output text
            = (case parse_lines post
                      (ds @ [\<lparr>name = nm, width = 1920, height = 1080, x = 0, y = 0,
                               is_primary = prim, is_connected = True, modes = [],
                               current_mode = ''1920x1080'', current_rate = ''60.00''\<rparr>],
                       Some (length ds)) of
                 Inl e \<Rightarrow> Inl e | Inr st \<Rightarrow> Inr (fst st))
          \<and> (\<forall>res. parse_xrandr_output text = Inr res \<longrightarrow>
                 length ds < length res
               \<and> name (res ! length ds) = nm
               \<and> width (res ! length ds) = 1920 \<and> height (res ! length ds) = 1080
               \<and> x (res ! length ds) = 0 \<and> y (res ! length ds) = 0)))
   \<and> (tok \<noteq> [] \<and> (\<forall>c \<in> set tok. \<not> is_space c) \<and> (\<forall>c \<in> set rest. \<not> is_digit c)
        \<and> CHR 0x0A \<notin> set rest \<longrightarrow>
        (\<exists>p. parse_xrandr_output (tok @ '' connected'' @ rest)
               = Inr [\<lparr>name = tok, width = 1920, height = 1080, x = 0, y = 0,
                        is_primary = p, is_connected = True, modes = [],
                        current_mode = ''1920x1080'', current_rate = ''60.00''\<rparr>]))"
proof -
  let ?D = "\<lambda>n p. \<lparr>name = n, width = 1920, height = 1080, x = 0, y = 0,
                        is_primary = p, is_connected = True, modes = [],
                        current_mode = ''1920x1080'', current_rate = ''60.00''\<rparr>"
  have single: "parse_xrandr_output l = Inr [?D n p]"
    if "match_header l = Some (n, True, p, None)" "CHR 0x0A \<notin> set l" for l n p
    using that(2) header_line_default [OF that(1), of "[]" None] by (simp add: parse_single_line)
  have part1: "parse_line line (ds0, cur0) = Inr (ds0 @ [?D nm prim], Some (length ds0))"
    if "match_header line = Some (nm, True, prim, None)"
    using that by (rule header_line_default)
  have part3: "parse_xrandr_output text
            = (case parse_lines post (ds @ [?D nm prim], Some (length ds)) of
                 Inl e \<Rightarrow> Inl e | Inr st \<Rightarrow> Inr (fst st))
          \<and> (\<forall>res. parse_xrandr_output text = Inr res \<longrightarrow>
                 length ds < length res
               \<and> name (res ! length ds) = nm
               \<and> width (res ! length ds) = 1920 \<and> height (res ! length ds) = 1080
               \<and> x (res ! length ds) = 0 \<and> y (res ! length ds) = 0)"
    if h: "match_header line = Some (nm, True, prim, None)"
      and t: "split_lines text = pre @ line # post" "parse_lines pre ([], None) = Inr (ds, cur)"
  proof -
    have eq: "parse_xrandr_output text
            = (case parse_lines post (ds @ [?D nm prim], Some (length ds)) of
                 Inl e \<Rightarrow> Inl e | Inr st \<Rightarrow> Inr (fst st))"
      unfolding parse_xrandr_output_def t(1) parse_lines_append
      using t(2) header_line_default [OF h, of ds cur] by simp
    have "length ds < length res
               \<and> name (res ! length ds) = nm
               \<and> width (res ! length ds) = 1920 \<and> height (res ! length ds) = 1080
               \<and> x (res ! length ds) = 0 \<and> y (res ! length ds) = 0"
      if r: "parse_xrandr_output text = Inr res" for res
    proof -
      from r eq obtain cur' where
        "parse_lines post (ds @ [?D nm prim], Some (length ds)) = Inr (res, cur')"
        by (auto split: sum.splits)
      from parse_lines_keeps [OF this, of "length ds"] show ?thesis by simp
    qed
    then show ?thesis using eq by blast
  qed
  have part4: "\<exists>p. parse_xrandr_output (tok @ '' connected'' @ rest) = Inr [?D tok p]"
    if tk: "tok \<noteq> []" "\<forall>c \<in> set tok. \<not> is_space c"
      and r: "\<forall>c \<in> set rest. \<not> is_digit c" "CHR 0x0A \<notin> set rest"
  proof -
    obtain p where "match_header (tok @ '' connected'' @ rest) = Some (tok, True, p, None)"
      using header_without_digits [OF tk r(1)] by blast
    moreover have "CHR 0x0A \<notin> set (tok @ '' connected'' @ rest)"
      using no_line_feed_in_token [OF tk(2)] r(2) by auto
    ultimately have "parse_xrandr_output (tok @ '' connected'' @ rest) = Inr [?D tok p]"
      by (rule single)
    then show ?thesis by blast
  qed
  show ?thesis
    using part1 single [of line nm prim] part3 part4 by blast
qed

theorem missing_geometry_default_witness:
  "parse_xrandr_output ''DP-1 connected (normal left inverted right x axis y axis)''
     = Inr [\<lparr>name = ''DP-1'', width = 1920, height = 1080, x = 0, y = 0,
              is_primary = False, is_connected = True, modes = [],
              current_mode = ''1920x1080'', current_rate = ''60.00''\<rparr>]
   \<and> match_header ''DP-1 connected (normal left inverted right x axis y axis)''
       = Some (''DP-1'', True, False, None)
   \<and> parse_xrandr_output no_geometry_text
       = Inr [\<lparr>name = ''HDMI-1'', width = 1280, height = 720, x = 0, y = 0,
                is_primary = True, is_connected = True, modes = [],
                current_mode = ''1280x720'', current_rate = ''60.00''\<rparr>,
              \<lparr>name = ''DP-1'', width = 1920, height = 1080, x = 0, y = 0,
                is_primary = False, is_connected = True, modes = [''1024x768''],
                current_mode = ''1024x768'', current_rate = ''75.03''\<rparr>]"
proof -
  let ?line = "''DP-1 connected (normal left inverted right x axis y axis)''"
  have h: "match_header ?line = Some (''DP-1'', True, False, None)"
    by code_simp
  have n: "CHR 0x0A \<notin> set ?line"
    by simp
  have sl: "split_lines no_geometry_text
      = [''HDMI-1 connected primary 1280x720+0+0''] @ ?line # [''   1024x768      75.03*'', []]"
    by code_simp
  have pre: "parse_lines [''HDMI-1 connected primary 1280x720+0+0''] ([], None)
      = Inr ([\<lparr>name = ''HDMI-1'', width = 1280, height = 720, x = 0, y = 0,
                is_primary = True, is_connected = True, modes = [],
                current_mode = ''1280x720'', current_rate = ''60.00''\<rparr>], Some 0)"
    by code_simp
  have post: "parse_lines [''   1024x768      75.03*'', []]
       ([\<lparr>name = ''HDMI-1'', width = 1280, height = 720, x = 0, y = 0,
                is_primary = True, is_connected = True, modes = [],
                current_mode = ''1280x720'', current_rate = ''60.00''\<rparr>]
        @ [\<lparr>name = ''DP-1'', width = 1920, height = 1080, x = 0, y = 0,
              is_primary = False, is_connected = True, modes = [],
              current_mode = ''1920x1080'', current_rate = ''60.00''\<rparr>],
        Some (length [\<lparr>name = ''HDMI-1'', width = 1280, height = 720, x = 0, y = 0,
                is_primary = True, is_connected = True, modes = [],
                current_mode = ''1280x720'', current_rate = ''60.00''\<rparr>]))
      = Inr ([\<lparr>name = ''HDMI-1'', width = 1280, height = 720, x = 0, y = 0,
                is_primary = True, is_connected = True, modes = [],
                current_mode = ''1280x720'', current_rate = ''60.00''\<rparr>,
              \<lparr>name = ''DP-1'', width = 1920, height = 1080, x = 0, y = 0,
                is_primary = False, is_connected = True, modes = [''1024x768''],
                current_mode = ''1024x768'', current_rate = ''75.03''\<rparr>], Some 1)"
    by code_simp
  note inst = missing_geometry_default
        [of ?line "''DP-1''" False _ _ no_geometry_text
            "[''HDMI-1 connected primary 1280x720+0+0'']" "[''   1024x768      75.03*'', []]"
            "[\<lparr>name = ''HDMI-1'', width = 1280, height = 720, x = 0, y = 0,
                is_primary = True, is_connected = True, modes = [],
                current_mode = ''1280x720'', current_rate = ''60.00''\<rparr>]" "Some 0"]
  have one: "parse_xrandr_output ?line
     = Inr [\<lparr>name = ''DP-1'', width = 1920, height = 1080, x = 0, y = 0,
              is_primary = False, is_connected = True, modes = [],
              current_mode = ''1920x1080'', current_rate = ''60.00''\<rparr>]"
    using h n inst by blast
  have "parse_xrandr_output no_geometry_text
        = (case parse_lines [''   1024x768      75.03*'', []]
             ([\<lparr>name = ''HDMI-1'', width = 1280, height = 720, x = 0, y = 0,
                is_primary = True, is_connected = True, modes = [],
                current_mode = ''1280x720'', current_rate = ''60.00''\<rparr>]
              @ [\<lparr>name = ''DP-1'', width = 1920, height = 1080, x = 0, y = 0,
                  is_primary = False, is_connected = True, modes = [],
                  current_mode = ''1920x1080'', current_rate = ''60.00''\<rparr>],
              Some (length [\<lparr>name = ''HDMI-1'', width = 1280, height = 720, x = 0, y = 0,
                is_primary = True, is_connected = True, modes = [],
                current_mode = ''1280x720'', current_rate = ''60.00''\<rparr>])) of
             Inl e \<Rightarrow> Inl e | Inr st \<Rightarrow> Inr (fst st))"
    using h sl pre inst by blast
  then have two: "parse_xrandr_output no_geometry_text
       = Inr [\<lparr>name = ''HDMI-1'', width = 1280, height = 720, x = 0, y = 0,
                is_primary = True, is_connected = True, modes = [],
                current_mode = ''1280x720'', current_rate = ''60.00''\<rparr>,
              \<lparr>name = ''DP-1'', width = 1920, height = 1080, x = 0, y = 0,
                is_primary = False, is_connected = True, modes = [''1024x768''],
                current_mode = ''1024x768'', current_rate = ''75.03''\<rparr>]"
    unfolding post by simp
  show ?thesis using one h two by blast
qed

subsection \<open>Mirror groups\<close>

lemma map_of_add_to_group:
  "map_of (add_to_group d gs) p =
     (if p = pos d
      then Some ((case map_of gs p of None \<Rightarrow> [] | Some g \<Rightarrow> g) @ [name d])
      else map_of gs p)"
  by (simp add: add_to_group_def Let_def AList.map_of_map_entry AList.update_conv' split: option.splits)

lemma distinct_add_to_group:
  "distinct (map fst gs) \<Longrightarrow> distinct (map fst (add_to_group d gs))"
  by (simp add: add_to_group_def Let_def AList.distinct_map_entry AList.distinct_update)

lemma fold_add_to_group_keys: "distinct (map fst (fold add_to_group ds []))"
  by (induction ds rule: rev_induct) (simp_all add: distinct_add_to_group)

lemma fold_add_to_group_lookup:
  "map_of (fold add_to_group ds []) p =
      (if p \<in> pos ` set ds then Some (map name (filter (\<lambda>d. pos d = p) ds)) else None)"
proof (induction ds rule: rev_induct)
  case Nil
  show ?case by simp
next
  case (snoc d ds)
  show ?case
  proof (cases "p = pos d")
    case True
    then show ?thesis using snoc.IH
      by (cases "pos d \<in> pos ` set ds") (auto simp add: map_of_add_to_group filter_empty_conv image_iff)
  next
    case False
    then show ?thesis using snoc.IH
      by (simp add: map_of_add_to_group)
  qed
qed

text \<open>Membership in the list of groups.\<close>

lemma group_iff:
  "g \<in> set (find_mirrored_display_groups ds) \<longleftrightarrow>
     (\<exists>p \<in> pos ` set ds. g = map name (filter (\<lambda>d. pos d = p) ds))"
proof -
  let ?gs = "fold add_to_group ds []"
  have "g \<in> set (find_mirrored_display_groups ds) \<longleftrightarrow> (\<exists>p. (p, g) \<in> set ?gs)"
    by (force simp add: find_mirrored_display_groups_def)
  also have "\<dots> \<longleftrightarrow> (\<exists>p. map_of ?gs p = Some g)"
    using fold_add_to_group_keys [of ds] by simp
  also have "\<dots> \<longleftrightarrow> (\<exists>p \<in> pos ` set ds. g = map name (filter (\<lambda>d. pos d = p) ds))"
    by (simp add: fold_add_to_group_lookup Bex_def del: split_paired_Ex) blast
  finally show ?thesis .
qed

lemma name_in_group:
  assumes "distinct (map name ds)" "d \<in> set ds" "p \<in> pos ` set ds"
  shows "name d \<in> set (map name (filter (\<lambda>d. pos d = p) ds)) \<longleftrightarrow> pos d = p"
proof
  assume "name d \<in> set (map name (filter (\<lambda>d. pos d = p) ds))"
  then obtain d' where d': "d' \<in> set ds" "pos d' = p" "name d' = name d" by auto
  have "inj_on name (set ds)" using assms(1) by (simp add: distinct_map)
  then have "d' = d" using d' assms(2) by (auto dest: inj_onD)
  then show "pos d = p" using d' by simp
next
  assume "pos d = p"
  then show "name d \<in> set (map name (filter (\<lambda>d. pos d = p) ds))"
    using assms(2) by auto
qed

lemma groups_distinct_concat:
  assumes "distinct (map name ds)"
  shows "distinct (concat (find_mirrored_display_groups ds))"
proof -
  let ?gs = "fold add_to_group ds []"
  let ?grp = "\<lambda>p. map name (filter (\<lambda>d. pos d = p) ds)"
  have keys: "distinct (map fst ?gs)" by (rule fold_add_to_group_keys)
  have entry: "snd e = ?grp (fst e) \<and> fst e \<in> pos ` set ds" if "e \<in> set ?gs" for e
  proof -
    have "map_of ?gs (fst e) = Some (snd e)" using keys that by simp
    then show ?thesis by (simp add: fold_add_to_group_lookup split: if_splits)
  qed
  have nonempty: "?grp p \<noteq> []" if "p \<in> pos ` set ds" for p
    using that by (auto simp add: filter_empty_conv)
  have disj: "set (?grp p) \<inter> set (?grp q) = {}" if "p \<noteq> q" for p q
  proof -
    have inj: "inj_on name (set ds)" using assms by (simp add: distinct_map)
    show ?thesis
    proof (rule ccontr)
      assume "set (?grp p) \<inter> set (?grp q) \<noteq> {}"
      then obtain n where "n \<in> set (?grp p)" "n \<in> set (?grp q)" by auto
      then obtain d d' where "d \<in> set ds" "pos d = p" "name d = n" "d' \<in> set ds" "pos d' = q" "name d' = n"
        by auto
      then show False using inj that by (auto dest: inj_onD)
    qed
  qed
  have inj_snd: "inj_on snd (set ?gs)"
  proof (rule inj_onI)
    fix e e' assume e: "e \<in> set ?gs" "e' \<in> set ?gs" "snd e = snd e'"
    have "fst e = fst e'"
    proof (rule ccontr)
      assume "fst e \<noteq> fst e'"
      then have "set (?grp (fst e)) \<inter> set (?grp (fst e')) = {}" by (rule disj)
      moreover have "?grp (fst e) = ?grp (fst e')" using entry e by metis
      ultimately show False using nonempty entry e(1) by (metis inf.idem set_empty)
    qed
    then show "e = e'" using e(3) by (simp add: prod_eq_iff)
  qed
  have d1: "distinct (map snd ?gs)"
    using keys inj_snd by (simp add: distinct_map)
  have d2: "distinct ys" if "ys \<in> set (map snd ?gs)" for ys
  proof -
    from that have "ys \<in> snd ` set ?gs" by simp
    then obtain e where "e \<in> set ?gs" "ys = snd e" by blast
    then have "ys = ?grp (fst e)" using entry by simp
    then show ?thesis using assms by (simp add: distinct_map_filter)
  qed
  have d3: "set ys \<inter> set zs = {}" if "ys \<in> set (map snd ?gs)" "zs \<in> set (map snd ?gs)" "ys \<noteq> zs" for ys zs
  proof -
    from that have "ys \<in> snd ` set ?gs" "zs \<in> snd ` set ?gs" by simp_all
    then obtain e e' where "e \<in> set ?gs" "ys = snd e" "e' \<in> set ?gs" "zs = snd e'" by blast
    then have "ys = ?grp (fst e)" "zs = ?grp (fst e')" using entry by simp_all
    then show ?thesis using disj that(3) by metis
  qed
  show ?thesis
    unfolding find_mirrored_display_groups_def
    by (rule distinct_concat) (use d1 d2 d3 in auto)
qed

lemma groups_cover: "set (concat (find_mirrored_display_groups ds)) = name ` set ds"
proof -
  have "n \<in> set (concat (find_mirrored_display_groups ds)) \<longleftrightarrow> n \<in> name ` set ds" for n
  proof -
    have "n \<in> set (concat (find_mirrored_display_groups ds)) \<longleftrightarrow>
        (\<exists>g \<in> set (find_mirrored_display_groups ds). n \<in> set g)" by auto
    also have "\<dots> \<longleftrightarrow> (\<exists>p \<in> pos ` set ds. n \<in> set (map name (filter (\<lambda>d. pos d = p) ds)))"
      unfolding Bex_def [of "set (find_mirrored_display_groups ds)"] group_iff by blast
    also have "\<dots> \<longleftrightarrow> n \<in> name ` set ds" by fastforce
    finally show ?thesis .
  qed
  then show ?thesis by blast
qed

lemma groups_nonempty: "[] \<notin> set (find_mirrored_display_groups ds)"
  by (auto simp add: group_iff filter_empty_conv)


lemma fold_map_entry_flag:
  "map_option is_mirrored
     (map_of (fold (\<lambda>n ws. AList.map_entry n (\<lambda>w. w\<lparr>is_mirrored := True, mirrored_with := F n\<rparr>) ws) ns ws) k)
   = map_option (\<lambda>w. k \<in> set ns \<or> is_mirrored w) (map_of ws k)"
proof (induction ns arbitrary: ws)
  case Nil
  show ?case by simp
next
  case (Cons n ns)
  show ?case
    by (cases "map_of ws k") (auto simp add: Cons.IH AList.map_of_map_entry)
qed

lemma is_mirrored_mark_group:
  "map_option is_mirrored (map_of (mark_group g ws) k)
   = map_option (\<lambda>w. k \<in> set g \<or> is_mirrored w) (map_of ws k)"
  unfolding mark_group_def by (rule fold_map_entry_flag)

lemma is_mirrored_mark_group':
  "map_option (\<lambda>w. P (is_mirrored w)) (map_of (mark_group g ws) k)
   = map_option (\<lambda>w. P (k \<in> set g \<or> is_mirrored w)) (map_of ws k)"
proof -
  have "map_option (\<lambda>w. P (is_mirrored w)) (map_of (mark_group g ws) k)
      = map_option P (map_option is_mirrored (map_of (mark_group g ws) k))"
    by (simp add: option.map_comp comp_def)
  also have "\<dots> = map_option P (map_option (\<lambda>w. k \<in> set g \<or> is_mirrored w) (map_of ws k))"
    by (simp only: is_mirrored_mark_group)
  also have "\<dots> = map_option (\<lambda>w. P (k \<in> set g \<or> is_mirrored w)) (map_of ws k)"
    by (simp add: option.map_comp comp_def)
  finally show ?thesis .
qed

lemma mark_mirrored_fold:
  "map_option is_mirrored
     (map_of (fst (fold (\<lambda>grp acc. if length grp > 1 then (mark_group grp (fst acc), True) else acc)
                     gs (ws, hm))) k)
   = map_option (\<lambda>w. (\<exists>g \<in> set gs. length g > 1 \<and> k \<in> set g) \<or> is_mirrored w) (map_of ws k)"
proof (induction gs arbitrary: ws hm)
  case Nil
  show ?case by simp
next
  case (Cons g gs)
  show ?case
  proof (cases "length g > 1")
    case True
    have "map_option is_mirrored
           (map_of (fst (fold (\<lambda>grp acc. if length grp > 1 then (mark_group grp (fst acc), True) else acc)
                     (g # gs) (ws, hm))) k)
        = map_option (\<lambda>w. (\<exists>g \<in> set gs. length g > 1 \<and> k \<in> set g) \<or> is_mirrored w)
            (map_of (mark_group g ws) k)"
      using True Cons.IH [of "mark_group g ws" True] by simp
    also have "\<dots> = map_option
         (\<lambda>w. (\<exists>g \<in> set gs. length g > 1 \<and> k \<in> set g) \<or> (k \<in> set g \<or> is_mirrored w)) (map_of ws k)"
      by (rule is_mirrored_mark_group')
    also have "\<dots> = map_option
         (\<lambda>w. (\<exists>g' \<in> set (g # gs). length g' > 1 \<and> k \<in> set g') \<or> is_mirrored w) (map_of ws k)"
      using True by (intro option.map_cong) auto
    finally show ?thesis .
  next
    case False
    then show ?thesis using Cons.IH [of ws hm] by simp
  qed
qed

lemma mark_mirrored_fold_flag:
  "snd (fold (\<lambda>grp acc. if length grp > 1 then (mark_group grp (fst acc), True) else acc)
                     gs (ws, hm)) = (hm \<or> (\<exists>g \<in> set gs. length g > 1))"
  by (induction gs arbitrary: ws hm) auto

lemma is_mirrored_mark_mirrored:
  "map_option is_mirrored (map_of (fst (mark_mirrored gs ws)) k)
   = map_option (\<lambda>w. (\<exists>g \<in> set gs. length g > 1 \<and> k \<in> set g) \<or> is_mirrored w) (map_of ws k)"
  unfolding mark_mirrored_def using mark_mirrored_fold [of gs ws False k] by simp

lemma has_mirrored_mark_mirrored:
  "snd (mark_mirrored gs ws) = (\<exists>g \<in> set gs. length g > 1)"
  unfolding mark_mirrored_def using mark_mirrored_fold_flag [of gs ws False] by simp

lemma create_widgets_snoc:
  "create_widgets place (ds @ [d]) =
     AList.update (name d) (fresh_widget (place (length ds) d) d) (create_widgets place ds)"
  by (simp add: create_widgets_def enumerate_append_eq)

lemma create_widgets_keys:
  "distinct (map name ds) \<Longrightarrow> map fst (create_widgets place ds) = map name ds"
proof (induction ds rule: rev_induct)
  case Nil
  show ?case by (simp add: create_widgets_def)
next
  case (snoc d ds)
  then show ?case
    by (simp add: create_widgets_snoc AList.update_keys)
qed

lemma create_widgets_fresh:
  "map_of (create_widgets place ds) k = Some w \<Longrightarrow> \<not> is_mirrored w"
proof (induction ds arbitrary: w rule: rev_induct)
  case Nil
  then show ?case by (simp add: create_widgets_def)
next
  case (snoc d ds)
  then show ?case
    by (auto simp add: create_widgets_snoc AList.update_conv' fresh_widget_def split: if_splits)
qed

lemma create_widgets_dom:
  "d \<in> set ds \<Longrightarrow> \<exists>w. map_of (create_widgets place ds) (name d) = Some w"
proof (induction ds rule: rev_induct)
  case Nil
  then show ?case by simp
next
  case (snoc e ds)
  then show ?case
    by (auto simp add: create_widgets_snoc AList.update_conv')
qed


lemma same_group_iff:
  assumes "distinct (map name ds)" "d \<in> set ds" "e \<in> set ds"
  shows "(\<exists>g \<in> set (find_mirrored_display_groups ds). name d \<in> set g \<and> name e \<in> set g)
         \<longleftrightarrow> pos d = pos e"
proof
  assume "\<exists>g \<in> set (find_mirrored_display_groups ds). name d \<in> set g \<and> name e \<in> set g"
  then obtain g where g: "g \<in> set (find_mirrored_display_groups ds)" "name d \<in> set g" "name e \<in> set g"
    by blast
  then obtain p where p: "p \<in> pos ` set ds" "g = map name (filter (\<lambda>d. pos d = p) ds)"
    unfolding group_iff by blast
  have "pos d = p" "pos e = p"
    using name_in_group [OF assms(1) assms(2) p(1)] name_in_group [OF assms(1) assms(3) p(1)] g p(2)
    by simp_all
  then show "pos d = pos e" by simp
next
  assume eq: "pos d = pos e"
  let ?g = "map name (filter (\<lambda>d'. pos d' = pos d) ds)"
  have "?g \<in> set (find_mirrored_display_groups ds)"
    unfolding group_iff using assms(2) by blast
  moreover have "name d \<in> set ?g" "name e \<in> set ?g"
    using assms(2,3) eq by auto
  ultimately show "\<exists>g \<in> set (find_mirrored_display_groups ds). name d \<in> set g \<and> name e \<in> set g"
    by blast
qed

lemma exactly_one_group:
  assumes "distinct (map name ds)" "d \<in> set ds"
  shows "\<exists>!i. i < length (find_mirrored_display_groups ds)
            \<and> name d \<in> set (find_mirrored_display_groups ds ! i)"
proof -
  let ?G = "find_mirrored_display_groups ds"
  have dc: "distinct (concat ?G)" using assms(1) by (rule groups_distinct_concat)
  have "name d \<in> set (concat ?G)" using assms(2) groups_cover [of ds] by blast
  then obtain g where "g \<in> set ?G" "name d \<in> set g" by auto
  then obtain i where i: "i < length ?G" "name d \<in> set (?G ! i)"
    by (auto simp add: in_set_conv_nth)
  have "j = i" if j: "j < length ?G" "name d \<in> set (?G ! j)" for j
  proof (rule ccontr)
    assume ne: "j \<noteq> i"
    have "distinct (removeAll [] ?G)" using dc by (simp add: distinct_concat_iff)
    then have "distinct ?G" using groups_nonempty [of ds] by simp
    then have "?G ! j \<noteq> ?G ! i" using ne i(1) j(1) by (simp add: nth_eq_iff_index_eq)
    moreover have "?G ! j \<in> set ?G" "?G ! i \<in> set ?G" using i(1) j(1) by simp_all
    ultimately have "set (?G ! j) \<inter> set (?G ! i) = {}"
      using dc unfolding distinct_concat_iff by blast
    then show False using i(2) j(2) by blast
  qed
  then show ?thesis using i by blast
qed

lemma widget_flag:
  assumes "d \<in> set ds"
  shows "\<exists>w. map_of (fst (mark_mirrored gs (create_widgets place ds))) (name d) = Some w
           \<and> is_mirrored w = (\<exists>g \<in> set gs. name d \<in> set g \<and> 2 \<le> length g)"
proof -
  obtain w0 where w0: "map_of (create_widgets place ds) (name d) = Some w0"
    using create_widgets_dom [OF assms] by blast
  have f0: "\<not> is_mirrored w0" using w0 by (rule create_widgets_fresh)
  have "map_option is_mirrored (map_of (fst (mark_mirrored gs (create_widgets place ds))) (name d))
      = Some (\<exists>g \<in> set gs. length g > 1 \<and> name d \<in> set g)"
    using w0 f0 by (simp add: is_mirrored_mark_mirrored)
  then obtain w where "map_of (fst (mark_mirrored gs (create_widgets place ds))) (name d) = Some w"
      "is_mirrored w = (\<exists>g \<in> set gs. length g > 1 \<and> name d \<in> set g)"
    by auto
  moreover have "(\<exists>g \<in> set gs. length g > 1 \<and> name d \<in> set g)
      = (\<exists>g \<in> set gs. name d \<in> set g \<and> 2 \<le> length g)"
    by (auto simp add: Suc_le_eq numeral_2_eq_2)
  ultimately show ?thesis by auto
qed

text \<open>
  Claim C6: mirror grouping partitions the active monitor list by exact equality of
  \<open>(x, y)\<close>. For monitors with distinct names: the groups are not empty, no name
  stands twice in them and together they hold the names of all monitors (so every monitor
  belongs to exactly one group); two monitors share a group exactly when their positions
  are equal; after the marking loop of \<^verbatim>\<open>refresh_displays\<close> a monitor's widget is
  flagged as mirrored exactly when its group has at least two members, and the unlink
  button is enabled exactly when such a group exists. For three monitors at
  \<open>(0, 0)\<close>, \<open>(0, 0)\<close> and \<open>(1920, 0)\<close> the groups are one of two and one of one,
  and only the widgets of the first are flagged.
\<close>

theorem mirror_groups_partition:
  assumes "distinct (map name ds)"
  shows "distinct (concat (find_mirrored_display_groups ds))
    \<and> set (concat (find_mirrored_display_groups ds)) = name ` set ds
    \<and> [] \<notin> set (find_mirrored_display_groups ds)
    \<and> (\<forall>d \<in> set ds. \<exists>!i. i < length (find_mirrored_display_groups ds)
            \<and> name d \<in> set (find_mirrored_display_groups ds ! i))
    \<and> (\<forall>d \<in> set ds. \<forall>e \<in> set ds.
          (\<exists>g \<in> set (find_mirrored_display_groups ds). name d \<in> set g \<and> name e \<in> set g)
          = (x d = x e \<and> y d = y e))
    \<and> (\<forall>d \<in> set ds. \<exists>w.
          map_of (fst (mark_mirrored (find_mirrored_display_groups ds) (create_widgets place ds)))
            (name d) = Some w
          \<and> is_mirrored w
            = (\<exists>g \<in> set (find_mirrored_display_groups ds). name d \<in> set g \<and> 2 \<le> length g))
    \<and> snd (mark_mirrored (find_mirrored_display_groups ds) (create_widgets place ds))
        = (\<exists>g \<in> set (find_mirrored_display_groups ds). 2 \<le> length g)
    \<and> find_mirrored_display_groups three_displays = [[''A'', ''B''], [''C'']]
    \<and> map (\<lambda>item. (fst item, is_mirrored (snd item)))
        (fst (mark_mirrored (find_mirrored_display_groups three_displays)
               (create_widgets example_place three_displays)))
        = [(''A'', True), (''B'', True), (''C'', False)]"
proof -
  have same: "\<forall>d \<in> set ds. \<forall>e \<in> set ds.
          (\<exists>g \<in> set (find_mirrored_display_groups ds). name d \<in> set g \<and> name e \<in> set g)
          = (x d = x e \<and> y d = y e)"
    using same_group_iff [OF assms] by (simp add: pos_def)
  have flag: "snd (mark_mirrored (find_mirrored_display_groups ds) (create_widgets place ds))
        = (\<exists>g \<in> set (find_mirrored_display_groups ds). 2 \<le> length g)"
    by (auto simp add: has_mirrored_mark_mirrored Suc_le_eq numeral_2_eq_2)
  have ex1: "find_mirrored_display_groups three_displays = [[''A'', ''B''], [''C'']]"
    by code_simp
  have ex2: "map (\<lambda>item. (fst item, is_mirrored (snd item)))
        (fst (mark_mirrored (find_mirrored_display_groups three_displays)
               (create_widgets example_place three_displays)))
        = [(''A'', True), (''B'', True), (''C'', False)]"
    by code_simp
  show ?thesis
    using groups_distinct_concat [OF assms] groups_cover [of ds] groups_nonempty [of ds]
      exactly_one_group [OF assms] same widget_flag [of _ ds] flag ex1 ex2
    by blast
qed

theorem mirror_groups_partition_witness:
  "distinct (map name three_displays)
   \<and> distinct (concat (find_mirrored_display_groups three_displays))
   \<and> set (concat (find_mirrored_display_groups three_displays)) = {''A'', ''B'', ''C''}
   \<and> snd (mark_mirrored (find_mirrored_display_groups three_displays)
            (create_widgets example_place three_displays))"
proof -
  have names: "map name three_displays = [''A'', ''B'', ''C'']"
    by (simp add: three_displays_def example_display_def new_display_def)
  have d: "distinct (map name three_displays)"
    unfolding names by simp
  have g: "find_mirrored_display_groups three_displays = [[''A'', ''B''], [''C'']]"
    using mirror_groups_partition [OF d, of example_place] by blast
  have "set (concat (find_mirrored_display_groups three_displays)) = name ` set three_displays"
    using mirror_groups_partition [OF d, of example_place] by blast
  then have s: "set (concat (find_mirrored_display_groups three_displays)) = {''A'', ''B'', ''C''}"
    using names by (metis list.set_map list.simps(15) empty_set)
  show ?thesis
    using d s mirror_groups_partition [OF d, of example_place] unfolding g by simp
qed

subsection \<open>Selection\<close>

text \<open>
  Claim C5 says that after any sequence of clicks the source and the target are never
  the same monitor, and that a click on a selected monitor deselects it. The code breaks
  it: from the empty selection the clicks \<^verbatim>\<open>A\<close>, \<^verbatim>\<open>B\<close>, \<^verbatim>\<open>A\<close>, \<^verbatim>\<open>B\<close> make
  \<^verbatim>\<open>A\<close> the source, \<^verbatim>\<open>B\<close> the target, deselect the source, and then, the source
  being \<^verbatim>\<open>None\<close>, the first branch makes \<^verbatim>\<open>B\<close> the source without looking at the
  target. The second branch has the test against the source's name; the first branch
  has none against the target's.
\<close>

theorem clicks_source_equals_target:
  "map_option name (source_display
      (clicks [example_display ''A'' 0 0, example_display ''B'' 0 0,
               example_display ''A'' 0 0, example_display ''B'' 0 0] two_displays)) = Some ''B''
   \<and> map_option name (target_display
      (clicks [example_display ''A'' 0 0, example_display ''B'' 0 0,
               example_display ''A'' 0 0, example_display ''B'' 0 0] two_displays)) = Some ''B''"
  by code_simp

subsection \<open>Snap engine\<close>

lemma consider_snap_candidate:
  "consider_snap r n p st = consider_candidate r (fst (snd p), snd (snd p), n, fst p) st"
  by (cases p) (simp add: consider_snap_def consider_candidate_def candidate_distance_sq_def Let_def)

lemma fold_consider_snap:
  "fold (consider_snap r n) ps st
   = fold (consider_candidate r) (map (\<lambda>p. (fst (snd p), snd (snd p), n, fst p)) ps) st"
  by (induction ps arbitrary: st) (simp_all add: consider_snap_candidate)

lemma consider_widget_candidates:
  "consider_widget key r item st =
     fold (consider_candidate r)
       (if fst item = key then []
        else map (\<lambda>p. (fst (snd p), snd (snd p), name (display (snd item)), fst p))
               (snap_positions r (allocation (snd item)))) st"
  by (cases item) (simp add: consider_widget_def fold_consider_snap)

lemma fold_consider_widget:
  "fold (consider_widget key r) ws st = fold (consider_candidate r) (snap_candidates key r ws) st"
proof (induction ws arbitrary: st)
  case Nil
  show ?case by (simp add: snap_candidates_def)
next
  case (Cons item ws)
  let ?own = "if fst item = key then []
       else map (\<lambda>p. (fst (snd p), snd (snd p), name (display (snd item)), fst p))
              (snap_positions r (allocation (snd item)))"
  have c: "snap_candidates key r (item # ws) = ?own @ snap_candidates key r ws"
    by (simp add: snap_candidates_def snap_positions_def)
  have "fold (consider_widget key r) (item # ws) st
      = fold (consider_widget key r) ws (consider_widget key r item st)"
    by simp
  also have "\<dots> = fold (consider_candidate r) (snap_candidates key r ws)
                     (consider_widget key r item st)"
    by (rule Cons.IH)
  also have "\<dots> = fold (consider_candidate r) (snap_candidates key r ws)
                     (fold (consider_candidate r) ?own st)"
    by (simp only: consider_widget_candidates)
  also have "\<dots> = fold (consider_candidate r) (?own @ snap_candidates key r ws) st"
    by simp
  finally show ?case unfolding c .
qed

lemma fold_consider_candidate:
  "(if \<forall>c \<in> set cs. (snap_threshold * 3) * (snap_threshold * 3) \<le> candidate_distance_sq r c
    then fold (consider_candidate r) cs (None, None) = (None, None)
    else \<exists>i. nearest_at r cs i
           \<and> fold (consider_candidate r) cs (None, None)
               = (Some (cs ! i), Some (candidate_distance_sq r (cs ! i))))"
proof (induction cs rule: rev_induct)
  case Nil
  show ?case by simp
next
  case (snoc c cs)
  let ?T = "(snap_threshold * 3) * (snap_threshold * 3)"
  let ?d = "candidate_distance_sq r"
  let ?st = "fold (consider_candidate r) cs (None, None)"
  have step: "fold (consider_candidate r) (cs @ [c]) (None, None) = consider_candidate r c ?st"
    by simp
  show ?case
  proof (cases "\<forall>c \<in> set cs. ?T \<le> ?d c")
    case True
    then have st: "?st = (None, None)" using snoc.IH by simp
    show ?thesis
    proof (cases "?d c < ?T")
      case True
      have "nearest_at r (cs @ [c]) (length cs)"
        unfolding nearest_at_def
      proof (intro conjI allI impI)
        show "length cs < length (cs @ [c])" by simp
        show "?d ((cs @ [c]) ! length cs) < ?T" using True by simp
        show "?d ((cs @ [c]) ! length cs) \<le> ?d ((cs @ [c]) ! j)" if "j < length (cs @ [c])" for j
        proof (cases "j < length cs")
          case True
          then have "?T \<le> ?d (cs ! j)" using \<open>\<forall>c \<in> set cs. ?T \<le> ?d c\<close> by simp
          then show ?thesis using \<open>?d c < ?T\<close> True by (simp add: nth_append)
        next
          case False
          then have "j = length cs" using that by simp
          then show ?thesis by simp
        qed
        show "?d ((cs @ [c]) ! length cs) < ?d ((cs @ [c]) ! j)" if "j < length cs" for j
        proof -
          have "?T \<le> ?d (cs ! j)" using \<open>\<forall>c \<in> set cs. ?T \<le> ?d c\<close> that by simp
          then show ?thesis using \<open>?d c < ?T\<close> that by (simp add: nth_append)
        qed
      qed
      moreover have "consider_candidate r c ?st = (Some c, Some (?d c))"
        using True st by (simp add: consider_candidate_def below_def)
      ultimately show ?thesis using True step
        by (auto intro!: exI [of _ "length cs"])
    next
      case False
      then have "consider_candidate r c ?st = ?st"
        by (simp add: consider_candidate_def)
      then show ?thesis using False True st step by auto
    qed
  next
    case False
    with snoc.IH have "\<exists>i. nearest_at r cs i \<and> ?st = (Some (cs ! i), Some (?d (cs ! i)))"
      by (simp only: if_False)
    then obtain i where i: "nearest_at r cs i" "?st = (Some (cs ! i), Some (?d (cs ! i)))"
      by blast
    have il: "i < length cs" and it: "?d (cs ! i) < ?T"
      and imin: "\<And>j. j < length cs \<Longrightarrow> ?d (cs ! i) \<le> ?d (cs ! j)"
      and ifirst: "\<And>j. j < i \<Longrightarrow> ?d (cs ! i) < ?d (cs ! j)"
      using i(1) unfolding nearest_at_def by auto
    have notall: "\<not> (\<forall>c \<in> set (cs @ [c]). ?T \<le> ?d c)" using False by auto
    show ?thesis
    proof (cases "?d c < ?d (cs ! i)")
      case True
      have "nearest_at r (cs @ [c]) (length cs)"
        unfolding nearest_at_def
      proof (intro conjI allI impI)
        show "length cs < length (cs @ [c])" by simp
        show "?d ((cs @ [c]) ! length cs) < ?T" using True it by simp
        show "?d ((cs @ [c]) ! length cs) \<le> ?d ((cs @ [c]) ! j)" if "j < length (cs @ [c])" for j
        proof (cases "j < length cs")
          case True
          then show ?thesis using imin [of j] \<open>?d c < ?d (cs ! i)\<close> by (simp add: nth_append)
        next
          case False
          then have "j = length cs" using that by simp
          then show ?thesis by simp
        qed
        show "?d ((cs @ [c]) ! length cs) < ?d ((cs @ [c]) ! j)" if "j < length cs" for j
          using imin [of j] \<open>?d c < ?d (cs ! i)\<close> that by (simp add: nth_append)
      qed
      moreover have "consider_candidate r c ?st = (Some c, Some (?d c))"
        using True it i(2) by (simp add: consider_candidate_def below_def)
      ultimately show ?thesis using notall step
        by (auto intro!: exI [of _ "length cs"])
    next
      case False
      have "nearest_at r (cs @ [c]) i"
        unfolding nearest_at_def
      proof (intro conjI allI impI)
        show "i < length (cs @ [c])" using il by simp
        show "?d ((cs @ [c]) ! i) < ?T" using it il by (simp add: nth_append)
        show "?d ((cs @ [c]) ! i) \<le> ?d ((cs @ [c]) ! j)" if "j < length (cs @ [c])" for j
        proof (cases "j < length cs")
          case True
          then show ?thesis using imin [of j] il by (simp add: nth_append)
        next
          case F: False
          then have "j = length cs" using that by simp
          then show ?thesis using False il by (simp add: nth_append)
        qed
        show "?d ((cs @ [c]) ! i) < ?d ((cs @ [c]) ! j)" if "j < i" for j
          using ifirst [of j] that il by (simp add: nth_append)
      qed
      moreover have "consider_candidate r c ?st = ?st"
        using False i(2) by (simp add: consider_candidate_def below_def)
      moreover have "(cs @ [c]) ! i = cs ! i" using il by (simp add: nth_append)
      ultimately show ?thesis using notall step i(2)
        by (auto intro!: exI [of _ i])
    qed
  qed
qed


lemma sqrt_22500: "sqrt 22500 = 150"
  by (rule real_sqrt_unique) simp_all

lemma distance_sqrt: "distance r c = sqrt (real_of_int (candidate_distance_sq r c))"
  by (simp add: distance_def candidate_distance_sq_def distance_sq_def Let_def)

lemma distance_less_threshold:
  "distance r c < 150
   \<longleftrightarrow> candidate_distance_sq r c < (snap_threshold * 3) * (snap_threshold * 3)"
proof -
  have "distance r c < 150
      \<longleftrightarrow> sqrt (real_of_int (candidate_distance_sq r c)) < sqrt 22500"
    by (simp add: distance_sqrt sqrt_22500)
  also have "\<dots> \<longleftrightarrow> real_of_int (candidate_distance_sq r c) < 22500"
    by (rule real_sqrt_less_iff)
  also have "\<dots> \<longleftrightarrow> candidate_distance_sq r c < (snap_threshold * 3) * (snap_threshold * 3)"
    by (simp add: snap_threshold_def)
  finally show ?thesis .
qed

lemma distance_le_iff:
  "distance r c \<le> distance r c' \<longleftrightarrow> candidate_distance_sq r c \<le> candidate_distance_sq r c'"
  by (simp add: distance_sqrt)

lemma distance_less_iff:
  "distance r c < distance r c' \<longleftrightarrow> candidate_distance_sq r c < candidate_distance_sq r c'"
  by (simp add: distance_sqrt)

text \<open>The two loops: which candidate they leave in \<^verbatim>\<open>best_snap\<close>.\<close>

lemma best_snap_nearest:
  assumes "snap_candidates key r ws \<noteq> []"
  shows "(find_best_snap key r ws \<noteq> None)
       = (Min (distance r ` set (snap_candidates key r ws)) < 150)
    \<and> (\<forall>c. find_best_snap key r ws = Some c \<longrightarrow>
          (\<exists>i < length (snap_candidates key r ws).
              snap_candidates key r ws ! i = c
            \<and> distance r c = Min (distance r ` set (snap_candidates key r ws))
            \<and> (\<forall>j < i. distance r (snap_candidates key r ws ! j)
                        \<noteq> Min (distance r ` set (snap_candidates key r ws)))))"
proof -
  let ?cs = "snap_candidates key r ws"
  let ?T = "(snap_threshold * 3) * (snap_threshold * 3)"
  let ?d = "candidate_distance_sq r"
  let ?M = "Min (distance r ` set ?cs)"
  have fin: "finite (distance r ` set ?cs)" and ne: "distance r ` set ?cs \<noteq> {}"
    using assms by simp_all
  have best: "find_best_snap key r ws = fst (fold (consider_candidate r) ?cs (None, None))"
    by (simp add: find_best_snap_def fold_consider_widget)
  have near: "?M < 150 \<longleftrightarrow> (\<exists>c \<in> set ?cs. ?d c < ?T)"
    using fin ne by (simp add: Min_less_iff distance_less_threshold)
  show ?thesis
  proof (cases "\<forall>c \<in> set ?cs. ?T \<le> ?d c")
    case True
    with fold_consider_candidate [of ?cs r]
    have "fold (consider_candidate r) ?cs (None, None) = (None, None)"
      by (simp only: if_True)
    then have "find_best_snap key r ws = None" using best by simp
    moreover have "\<not> ?M < 150"
      unfolding near using True by (auto simp add: not_less)
    ultimately show ?thesis by simp
  next
    case False
    with fold_consider_candidate [of ?cs r]
    have "\<exists>i. nearest_at r ?cs i
           \<and> fold (consider_candidate r) ?cs (None, None) = (Some (?cs ! i), Some (?d (?cs ! i)))"
      by (simp only: if_False)
    then obtain i where i: "nearest_at r ?cs i"
        and f: "fold (consider_candidate r) ?cs (None, None) = (Some (?cs ! i), Some (?d (?cs ! i)))"
      by blast
    have il: "i < length ?cs"
      and imin: "\<And>j. j < length ?cs \<Longrightarrow> ?d (?cs ! i) \<le> ?d (?cs ! j)"
      and ifirst: "\<And>j. j < i \<Longrightarrow> ?d (?cs ! i) < ?d (?cs ! j)"
      using i unfolding nearest_at_def by auto
    have b: "find_best_snap key r ws = Some (?cs ! i)" using best f by simp
    have "distance r (?cs ! i) \<le> v" if "v \<in> distance r ` set ?cs" for v
    proof -
      from that obtain j where "j < length ?cs" "v = distance r (?cs ! j)"
        by (auto simp add: in_set_conv_nth)
      then show ?thesis using imin [of j] by (simp add: distance_le_iff)
    qed
    moreover have "distance r (?cs ! i) \<in> distance r ` set ?cs" using il by simp
    ultimately have m: "?M = distance r (?cs ! i)"
      using fin by (intro Min_eqI) auto
    have "distance r (?cs ! j) \<noteq> ?M" if "j < i" for j
      using ifirst [OF that] unfolding m by (simp add: distance_less_iff [symmetric])
    moreover have "?M < 150"
      unfolding near using False by (auto simp add: not_le)
    ultimately show ?thesis using b il m by auto
  qed
qed

text \<open>The rest of the handler.\<close>

lemma would_overlap_iff:
  "would_overlap key r ws px py = overlaps_other key r ws px py"
proof (induction ws)
  case Nil
  show ?case by (simp add: overlaps_other_def)
next
  case (Cons item ws)
  obtain nm w where item: "item = (nm, w)" by (cases item) auto
  have "would_overlap key r ws px py
        = list_ex (\<lambda>item.
            fst item \<noteq> key
            \<and> px < alloc_x (allocation (snd item)) + alloc_width (allocation (snd item))
            \<and> alloc_x (allocation (snd item)) < px + alloc_width r
            \<and> py < alloc_y (allocation (snd item)) + alloc_height (allocation (snd item))
            \<and> alloc_y (allocation (snd item)) < py + alloc_height r) ws"
    using Cons.IH by (simp add: overlaps_other_def)
  then show ?case
    unfolding item overlaps_other_def by (auto simp add: intersects_def)
qed

lemma pending_find_non_overlapping:
  "pending_layout_changes (find_non_overlapping_position key s) = pending_layout_changes s"
  by (simp add: find_non_overlapping_position_def move_def update_widget_def
        split: option.splits)

lemma snap_commit:
  assumes "map_of (display_widgets s) key = Some dragged"
    and "find_best_snap key (allocation dragged) (display_widgets s) = Some (sx, sy, rel, dir)"
    and "\<not> overlaps_other key (allocation dragged) (display_widgets s) sx sy"
  shows "pending_layout_changes (snap_widget_position key s)
           = AList.update key (rel, dir) (pending_layout_changes s)
    \<and> map_of (display_widgets (snap_widget_position key s)) key
        = Some (dragged\<lparr>allocation := (allocation dragged)\<lparr>alloc_x := sx, alloc_y := sy\<rparr>,
                         has_pending_changes := True\<rparr>)
    \<and> apply_layout_btn (snap_widget_position key s)"
  using assms
  by (simp add: snap_widget_position_def would_overlap_iff show_status_def update_widget_def
        move_def AList.map_of_map_entry)

lemma snap_veto:
  assumes "map_of (display_widgets s) key = Some dragged"
    and "find_best_snap key (allocation dragged) (display_widgets s) = Some (sx, sy, rel, dir)"
    and "overlaps_other key (allocation dragged) (display_widgets s) sx sy"
  shows "pending_layout_changes (snap_widget_position key s) = pending_layout_changes s"
  using assms by (simp add: snap_widget_position_def would_overlap_iff)

lemma snap_none:
  assumes "map_of (display_widgets s) key = Some dragged"
    and "find_best_snap key (allocation dragged) (display_widgets s) = None"
  shows "pending_layout_changes (snap_widget_position key s) = pending_layout_changes s"
  using assms by (simp add: snap_widget_position_def pending_find_non_overlapping)

text \<open>
  Claim C1 says that the engine accepts a snap exactly when the least distance is below
  150. The selection is so, but the handler commits the selected candidate only when the
  dragged rectangle would overlap no other monitor there (the guard of line 746). In
  \<open>vetoed_drop\<close> candidates exist and the least distance is below 150 (the place
  right of \<^verbatim>\<open>B\<close> is at the square root of 200), and no snap is accepted: nothing is
  recorded and the widget is where it was dropped.
\<close>

theorem snap_veto_counterexample:
  "snap_candidates ''A'' \<lparr>alloc_x = 110, alloc_y = 10, alloc_width = 100, alloc_height = 60\<rparr>
      (display_widgets vetoed_drop) \<noteq> []
   \<and> Min (distance \<lparr>alloc_x = 110, alloc_y = 10, alloc_width = 100, alloc_height = 60\<rparr>
            ` set (snap_candidates ''A''
                     \<lparr>alloc_x = 110, alloc_y = 10, alloc_width = 100, alloc_height = 60\<rparr>
                     (display_widgets vetoed_drop))) < 150
   \<and> map_option allocation (map_of (display_widgets vetoed_drop) ''A'')
       = Some \<lparr>alloc_x = 110, alloc_y = 10, alloc_width = 100, alloc_height = 60\<rparr>
   \<and> pending_layout_changes (snap_widget_position ''A'' vetoed_drop) = []
   \<and> map_option allocation (map_of (display_widgets (snap_widget_position ''A'' vetoed_drop)) ''A'')
       = Some \<lparr>alloc_x = 110, alloc_y = 10, alloc_width = 100, alloc_height = 60\<rparr>"
proof -
  let ?r = "\<lparr>alloc_x = 110, alloc_y = 10, alloc_width = 100, alloc_height = 60\<rparr>"
  let ?cs = "snap_candidates ''A'' ?r (display_widgets vetoed_drop)"
  have c: "?cs \<noteq> []" by code_simp
  have m: "(100, 0, ''B'', ''right-of'') \<in> set ?cs" by code_simp
  have "candidate_distance_sq ?r (100, 0, ''B'', ''right-of'') = 200"
    by (simp add: candidate_distance_sq_def distance_sq_def)
  then have "distance ?r (100, 0, ''B'', ''right-of'') < 150"
    by (simp add: distance_less_threshold snap_threshold_def)
  then have "\<exists>v \<in> distance ?r ` set ?cs. v < 150" using m by blast
  then have near: "Min (distance ?r ` set ?cs) < 150"
    using c by (simp add: Min_less_iff)
  have a: "map_option allocation (map_of (display_widgets vetoed_drop) ''A'') = Some ?r"
    by code_simp
  have p: "pending_layout_changes (snap_widget_position ''A'' vetoed_drop) = []"
    by code_simp
  have w: "map_option allocation
             (map_of (display_widgets (snap_widget_position ''A'' vetoed_drop)) ''A'') = Some ?r"
    by code_simp
  show ?thesis
    by (intro conjI) (rule c near a p w)+
qed

text \<open>
  Claim C1 as amended: on a release for which a candidate exists, the engine selects a
  candidate exactly when the least Euclidean distance between the dragged rectangle's
  top-left corner and a candidate's, over all other monitors and the four directions, is
  strictly below 150; the selected candidate is at that least distance and is the first
  such candidate in the order of enumeration (the other monitors in the order of the
  dictionary, for each \<^verbatim>\<open>right-of\<close>, \<^verbatim>\<open>left-of\<close>, \<^verbatim>\<open>above\<close>, \<^verbatim>\<open>below\<close>). The
  snap is accepted (the widget moved to the candidate, the pending change recorded with
  the candidate's monitor and direction, the apply button enabled) exactly when, in
  addition, the dragged rectangle at the candidate would overlap no other monitor. When
  the least distance is 150 or more, or the selected candidate would overlap, no pending
  change is recorded.
\<close>

theorem snap_accepts_nearest_free:
  assumes "map_of (display_widgets s) key = Some dragged"
    and "snap_candidates key (allocation dragged) (display_widgets s) \<noteq> []"
  shows "(find_best_snap key (allocation dragged) (display_widgets s) \<noteq> None)
       = (Min (distance (allocation dragged)
                 ` set (snap_candidates key (allocation dragged) (display_widgets s))) < 150)
    \<and> (\<forall>c. find_best_snap key (allocation dragged) (display_widgets s) = Some c \<longrightarrow>
          (\<exists>i < length (snap_candidates key (allocation dragged) (display_widgets s)).
              snap_candidates key (allocation dragged) (display_widgets s) ! i = c
            \<and> distance (allocation dragged) c
                = Min (distance (allocation dragged)
                         ` set (snap_candidates key (allocation dragged) (display_widgets s)))
            \<and> (\<forall>j < i. distance (allocation dragged)
                           (snap_candidates key (allocation dragged) (display_widgets s) ! j)
                        \<noteq> Min (distance (allocation dragged)
                                 ` set (snap_candidates key (allocation dragged) (display_widgets s))))))
    \<and> (150 \<le> Min (distance (allocation dragged)
                     ` set (snap_candidates key (allocation dragged) (display_widgets s))) \<longrightarrow>
          pending_layout_changes (snap_widget_position key s) = pending_layout_changes s)
    \<and> (Min (distance (allocation dragged)
              ` set (snap_candidates key (allocation dragged) (display_widgets s))) < 150 \<longrightarrow>
          (\<exists>i < length (snap_candidates key (allocation dragged) (display_widgets s)).
             \<exists>sx sy rel dir.
               snap_candidates key (allocation dragged) (display_widgets s) ! i = (sx, sy, rel, dir)
             \<and> distance (allocation dragged) (sx, sy, rel, dir)
                 = Min (distance (allocation dragged)
                          ` set (snap_candidates key (allocation dragged) (display_widgets s)))
             \<and> (\<forall>j < i. distance (allocation dragged)
                            (snap_candidates key (allocation dragged) (display_widgets s) ! j)
                         \<noteq> Min (distance (allocation dragged)
                                  ` set (snap_candidates key (allocation dragged) (display_widgets s))))
             \<and> (if overlaps_other key (allocation dragged) (display_widgets s) sx sy
                 then pending_layout_changes (snap_widget_position key s) = pending_layout_changes s
                 else pending_layout_changes (snap_widget_position key s)
                        = AList.update key (rel, dir) (pending_layout_changes s)
                    \<and> map_of (display_widgets (snap_widget_position key s)) key
                        = Some (dragged\<lparr>allocation :=
                                          (allocation dragged)\<lparr>alloc_x := sx, alloc_y := sy\<rparr>,
                                        has_pending_changes := True\<rparr>)
                    \<and> apply_layout_btn (snap_widget_position key s))))"
proof -
  let ?r = "allocation dragged"
  let ?ws = "display_widgets s"
  let ?cs = "snap_candidates key ?r ?ws"
  let ?M = "Min (distance ?r ` set ?cs)"
  note sel = best_snap_nearest [OF assms(2)]
  note sel1 = conjunct1 [OF sel]
  note sel2 = conjunct2 [OF sel]
  have far: "pending_layout_changes (snap_widget_position key s) = pending_layout_changes s"
    if "150 \<le> ?M"
  proof -
    from that have n: "\<not> ?M < 150" by simp
    have "find_best_snap key ?r ?ws = None"
    proof (rule ccontr)
      assume "find_best_snap key ?r ?ws \<noteq> None"
      with sel1 have "?M < 150" by (rule iffD1)
      with n show False ..
    qed
    with assms(1) show ?thesis by (rule snap_none)
  qed
  have near: "\<exists>i < length ?cs. \<exists>sx sy rel dir.
               ?cs ! i = (sx, sy, rel, dir)
             \<and> distance ?r (sx, sy, rel, dir) = ?M
             \<and> (\<forall>j < i. distance ?r (?cs ! j) \<noteq> ?M)
             \<and> (if overlaps_other key ?r ?ws sx sy
                 then pending_layout_changes (snap_widget_position key s) = pending_layout_changes s
                 else pending_layout_changes (snap_widget_position key s)
                        = AList.update key (rel, dir) (pending_layout_changes s)
                    \<and> map_of (display_widgets (snap_widget_position key s)) key
                        = Some (dragged\<lparr>allocation := ?r\<lparr>alloc_x := sx, alloc_y := sy\<rparr>,
                                        has_pending_changes := True\<rparr>)
                    \<and> apply_layout_btn (snap_widget_position key s))"
    if "?M < 150"
  proof -
    from sel1 that have "find_best_snap key ?r ?ws \<noteq> None" by (rule iffD2)
    then have "\<exists>c. find_best_snap key ?r ?ws = Some c" by (simp only: not_None_eq)
    then obtain c where c: "find_best_snap key ?r ?ws = Some c" ..
    have "\<exists>i < length ?cs. ?cs ! i = c \<and> distance ?r c = ?M
        \<and> (\<forall>j < i. distance ?r (?cs ! j) \<noteq> ?M)"
      by (rule sel2 [rule_format, OF c])
    then obtain i where i: "i < length ?cs" "?cs ! i = c" "distance ?r c = ?M"
        "\<forall>j < i. distance ?r (?cs ! j) \<noteq> ?M"
      by (elim exE conjE)
    obtain sx sy rel dir where q: "c = (sx, sy, rel, dir)" by (cases c) auto
    have e: "?cs ! i = (sx, sy, rel, dir)" using i(2) q by (simp only:)
    have d: "distance ?r (sx, sy, rel, dir) = ?M" using i(3) q by (simp only:)
    have eff: "if overlaps_other key ?r ?ws sx sy
          then pending_layout_changes (snap_widget_position key s) = pending_layout_changes s
          else pending_layout_changes (snap_widget_position key s)
                 = AList.update key (rel, dir) (pending_layout_changes s)
             \<and> map_of (display_widgets (snap_widget_position key s)) key
                 = Some (dragged\<lparr>allocation := ?r\<lparr>alloc_x := sx, alloc_y := sy\<rparr>,
                                 has_pending_changes := True\<rparr>)
             \<and> apply_layout_btn (snap_widget_position key s)"
      using snap_commit [OF assms(1) c [unfolded q]] snap_veto [OF assms(1) c [unfolded q]]
      by (cases "overlaps_other key ?r ?ws sx sy") simp_all
    show ?thesis
      apply (rule exI [of _ i])
      apply (rule conjI [OF i(1)])
      apply (rule exI [of _ sx], rule exI [of _ sy], rule exI [of _ rel], rule exI [of _ dir])
      apply (rule conjI [OF e])
      apply (rule conjI [OF d])
      apply (rule conjI [OF i(4)])
      apply (rule eff)
      done
  qed
  show ?thesis
    apply (rule conjI [OF sel1])
    apply (rule conjI [OF sel2])
    apply (rule conjI)
     apply (rule impI, erule far)
    apply (rule impI, erule near)
    done
qed

theorem snap_accepts_nearest_free_witness:
  "map_of (display_widgets nearest_drop) ''A''
     = Some (snd (example_widget ''A'' 150 0))
   \<and> allocation (snd (example_widget ''A'' 150 0))
     = \<lparr>alloc_x = 150, alloc_y = 0, alloc_width = 100, alloc_height = 60\<rparr>
   \<and> take 5 (snap_candidates ''A''
        \<lparr>alloc_x = 150, alloc_y = 0, alloc_width = 100, alloc_height = 60\<rparr>
        (display_widgets nearest_drop))
     = [(250, 130, ''D'', ''right-of''), (50, 130, ''D'', ''left-of''),
        (150, 70, ''D'', ''above''), (150, 190, ''D'', ''below''),
        (100, 0, ''B'', ''right-of'')]
   \<and> distance \<lparr>alloc_x = 150, alloc_y = 0, alloc_width = 100, alloc_height = 60\<rparr>
        (150, 70, ''D'', ''above'') < 150
   \<and> distance \<lparr>alloc_x = 150, alloc_y = 0, alloc_width = 100, alloc_height = 60\<rparr>
        (100, 0, ''B'', ''right-of'')
     < distance \<lparr>alloc_x = 150, alloc_y = 0, alloc_width = 100, alloc_height = 60\<rparr>
        (150, 70, ''D'', ''above'')
   \<and> find_best_snap ''A''
        \<lparr>alloc_x = 150, alloc_y = 0, alloc_width = 100, alloc_height = 60\<rparr>
        (display_widgets nearest_drop) = Some (100, 0, ''B'', ''right-of'')
   \<and> distance \<lparr>alloc_x = 150, alloc_y = 0, alloc_width = 100, alloc_height = 60\<rparr>
        (100, 0, ''B'', ''right-of'')
     = Min (distance \<lparr>alloc_x = 150, alloc_y = 0, alloc_width = 100, alloc_height = 60\<rparr>
            ` set (snap_candidates ''A''
                     \<lparr>alloc_x = 150, alloc_y = 0, alloc_width = 100, alloc_height = 60\<rparr>
                     (display_widgets nearest_drop)))
   \<and> Min (distance \<lparr>alloc_x = 150, alloc_y = 0, alloc_width = 100, alloc_height = 60\<rparr>
            ` set (snap_candidates ''A''
                     \<lparr>alloc_x = 150, alloc_y = 0, alloc_width = 100, alloc_height = 60\<rparr>
                     (display_widgets nearest_drop))) < 150
   \<and> pending_layout_changes (snap_widget_position ''A'' nearest_drop)
     = [(''A'', ''B'', ''right-of'')]
   \<and> map_option allocation
        (map_of (display_widgets (snap_widget_position ''A'' nearest_drop)) ''A'')
     = Some \<lparr>alloc_x = 100, alloc_y = 0, alloc_width = 100, alloc_height = 60\<rparr>"
proof -
  let ?d = "snd (example_widget ''A'' 150 0)"
  let ?r = "\<lparr>alloc_x = 150, alloc_y = 0, alloc_width = 100, alloc_height = 60\<rparr>"
  let ?cs = "snap_candidates ''A'' ?r (display_widgets nearest_drop)"
  have w: "map_of (display_widgets nearest_drop) ''A'' = Some ?d" by code_simp
  have a: "allocation ?d = ?r" by code_simp
  have c: "snap_candidates ''A'' (allocation ?d) (display_widgets nearest_drop) \<noteq> []"
    unfolding a by code_simp
  have t: "take 5 ?cs
     = [(250, 130, ''D'', ''right-of''), (50, 130, ''D'', ''left-of''),
        (150, 70, ''D'', ''above''), (150, 190, ''D'', ''below''),
        (100, 0, ''B'', ''right-of'')]"
    by code_simp
  have d1: "distance ?r (150, 70, ''D'', ''above'') < 150"
    by (simp add: distance_less_threshold candidate_distance_sq_def distance_sq_def
        snap_threshold_def)
  have d2: "distance ?r (100, 0, ''B'', ''right-of'') < distance ?r (150, 70, ''D'', ''above'')"
    by (simp add: distance_less_iff candidate_distance_sq_def distance_sq_def)
  have b: "find_best_snap ''A'' ?r (display_widgets nearest_drop)
           = Some (100, 0, ''B'', ''right-of'')"
    by code_simp
  note inst = snap_accepts_nearest_free [OF w c, unfolded a]
  note inst1 = conjunct1 [OF inst]
  note inst2 = conjunct1 [OF conjunct2 [OF inst]]
  have "find_best_snap ''A'' ?r (display_widgets nearest_drop) \<noteq> None"
    by (simp only: b) simp
  with inst1 have m: "Min (distance ?r ` set ?cs) < 150" by (rule iffD1)
  have "\<exists>i < length ?cs. ?cs ! i = (100, 0, ''B'', ''right-of'')
        \<and> distance ?r (100, 0, ''B'', ''right-of'') = Min (distance ?r ` set ?cs)
        \<and> (\<forall>j < i. distance ?r (?cs ! j) \<noteq> Min (distance ?r ` set ?cs))"
    by (rule inst2 [rule_format, OF b])
  then have dm: "distance ?r (100, 0, ''B'', ''right-of'') = Min (distance ?r ` set ?cs)"
    by (elim exE conjE)
  have p: "pending_layout_changes (snap_widget_position ''A'' nearest_drop)
     = [(''A'', ''B'', ''right-of'')]"
    by code_simp
  have n: "map_option allocation
        (map_of (display_widgets (snap_widget_position ''A'' nearest_drop)) ''A'')
     = Some \<lparr>alloc_x = 100, alloc_y = 0, alloc_width = 100, alloc_height = 60\<rparr>"
    by code_simp
  show ?thesis
    by (intro conjI) (rule w a t d1 d2 b dm m p n)+
qed

text \<open>
  Claim C2 says that a winning candidate that would overlap another monitor is not
  committed and that the dragged monitor is then placed at the first fallback position
  that overlaps nothing. The code does the first and misses the second: the fallback is
  the \<^verbatim>\<open>else\<close> of \<^verbatim>\<open>if best_snap:\<close>, so it runs only when no candidate is near, and
  a vetoed candidate leaves the state as it is. In \<open>vetoed_drop\<close> the winner is the
  place right of \<^verbatim>\<open>B\<close>, which \<^verbatim>\<open>C\<close> occupies; the fallback position
  \<open>(200, 20)\<close> is free, and the widget stays at \<open>(110, 10)\<close>, on top of \<^verbatim>\<open>C\<close>.
\<close>

theorem vetoed_snap_has_no_fallback:
  "find_best_snap ''A'' \<lparr>alloc_x = 110, alloc_y = 10, alloc_width = 100, alloc_height = 60\<rparr>
      (display_widgets vetoed_drop) = Some (100, 0, ''B'', ''right-of'')
   \<and> would_overlap ''A'' \<lparr>alloc_x = 110, alloc_y = 10, alloc_width = 100, alloc_height = 60\<rparr>
      (display_widgets vetoed_drop) 100 0
   \<and> first_free ''A'' \<lparr>alloc_x = 110, alloc_y = 10, alloc_width = 100, alloc_height = 60\<rparr>
      (display_widgets vetoed_drop) test_positions = Some (200, 20)
   \<and> snap_widget_position ''A'' vetoed_drop = vetoed_drop"
  by code_simp

subsection \<open>Applying the pending changes\<close>

lemma show_status_status [simp]: "status (show_status m s) = status s @ [m]"
  by (simp add: show_status_def)

lemma apply_entry_result:
  "apply_entry run entry (world, issued, n, s) =
     (snd (run (reposition_cmd entry) world),
      issued @ [reposition_cmd entry],
      n + (if succeeded (fst (run (reposition_cmd entry) world)) then 1 else 0),
      s\<lparr>status := status s @ failure_report entry (fst (run (reposition_cmd entry) world))\<rparr>)"
proof (cases "run (reposition_cmd entry) world")
  case (Pair res world')
  then show ?thesis
    by (cases res) (simp_all add: apply_entry_def Let_def show_status_def)
qed

lemma fold_apply_entry:
  "fold (apply_entry run) entries (world, issued, n, s) =
     (snd (run_all run (map reposition_cmd entries) world),
      issued @ map reposition_cmd entries,
      n + length (filter succeeded (fst (run_all run (map reposition_cmd entries) world))),
      s\<lparr>status := status s @ concat (map (\<lambda>(e, res). failure_report e res)
               (zip entries (fst (run_all run (map reposition_cmd entries) world))))\<rparr>)"
proof (induction entries arbitrary: world issued n s)
  case Nil
  show ?case by simp
next
  case (Cons entry entries)
  show ?case
    by (simp add: apply_entry_result Cons.IH split: prod.splits)
qed

lemma length_run_all: "length (fst (run_all run cmds world)) = length cmds"
  by (induction cmds arbitrary: world) (simp_all add: split_beta)

lemma on_apply_layout_clicked_result:
  "on_apply_layout_clicked run world s =
     (if pending_layout_changes s = [] then (world, [], s)
      else (snd (run_all run (map reposition_cmd (pending_layout_changes s)) world),
            map reposition_cmd (pending_layout_changes s),
            s\<lparr>status := status s
                   @ concat (map (\<lambda>(e, res). failure_report e res)
                       (zip (pending_layout_changes s)
                            (fst (run_all run (map reposition_cmd (pending_layout_changes s)) world))))
                   @ (if 0 < length (filter succeeded
                            (fst (run_all run (map reposition_cmd (pending_layout_changes s)) world)))
                      then [''Applied ''
                            @ str_nat (length (filter succeeded
                                (fst (run_all run (map reposition_cmd (pending_layout_changes s)) world))))
                            @ '' layout change(s)'']
                      else []),
               pending_layout_changes := [],
               display_widgets :=
                 map (\<lambda>(nm, w). (nm, w\<lparr>has_pending_changes := False\<rparr>)) (display_widgets s),
               apply_layout_btn := False\<rparr>))"
  unfolding on_apply_layout_clicked_def fold_apply_entry
  by (simp add: Let_def show_status_def)

text \<open>
  Claim C7 says that every failing entry is reported with the command's
  \<^verbatim>\<open>stderr\<close> text, or \<^verbatim>\<open>Unknown error\<close> when that is empty. For an invocation
  that raises there is no \<^verbatim>\<open>stderr\<close>: the \<^verbatim>\<open>except\<close> branch reports the text of
  the exception, under another heading.
\<close>

theorem exception_report_counterexample:
  "status (snd (snd (on_apply_layout_clicked raising_run () one_pending)))
     = status one_pending @ [''Error positioning A: [Errno 2] No such file or directory'']
   \<and> status (snd (snd (on_apply_layout_clicked raising_run () one_pending)))
     \<noteq> status one_pending @ [''Failed to position A: Unknown error'']"
  by code_simp


text \<open>
  Claim C7 as amended: the handler passes one command to \<^verbatim>\<open>subprocess.run\<close> for each
  pending entry, in the order of the entries and whatever the results of the earlier
  ones, each of the form \<^verbatim>\<open>xrandr --output NAME --DIRECTION REFERENCE\<close>; the
  messages it shows are, entry by entry, nothing for exit status 0,
  \<^verbatim>\<open>Failed to position NAME:\<close> with the \<^verbatim>\<open>stderr\<close> text stripped of surrounding
  white space (or \<^verbatim>\<open>Unknown error\<close> when nothing is left) for another exit status,
  and \<^verbatim>\<open>Error positioning NAME:\<close> with the exception's text for an invocation
  that raises; then the count of successes, when there is one.
\<close>

theorem apply_attempts_every_entry:
  "fst (snd (on_apply_layout_clicked run world s)) = map reposition_cmd (pending_layout_changes s)
   \<and> reposition_cmd (display_name, relative_to, direction)
       = [''xrandr'', ''--output'', display_name, ''--'' @ direction, relative_to]
   \<and> length (fst (run_all run (map reposition_cmd (pending_layout_changes s)) world))
       = length (pending_layout_changes s)
   \<and> status (snd (snd (on_apply_layout_clicked run world s)))
       = status s
         @ concat (map (\<lambda>(e, res). failure_report e res)
             (zip (pending_layout_changes s)
                  (fst (run_all run (map reposition_cmd (pending_layout_changes s)) world))))
         @ (if 0 < length (filter succeeded
                  (fst (run_all run (map reposition_cmd (pending_layout_changes s)) world)))
            then [''Applied ''
                  @ str_nat (length (filter succeeded
                      (fst (run_all run (map reposition_cmd (pending_layout_changes s)) world))))
                  @ '' layout change(s)'']
            else [])
   \<and> failure_report (display_name, relative_to, direction) (Raised e)
       = [''Error positioning '' @ display_name @ '': '' @ e]
   \<and> failure_report (display_name, relative_to, direction) (Completed returncode stderr)
       = (if returncode = 0 then []
          else [''Failed to position '' @ display_name @ '': ''
                  @ (if strip stderr = [] then ''Unknown error'' else strip stderr)])"
proof (cases "pending_layout_changes s = []")
  case True
  then show ?thesis
    by (simp add: on_apply_layout_clicked_result reposition_cmd_def)
next
  case False
  then show ?thesis
    by (simp add: on_apply_layout_clicked_result reposition_cmd_def length_run_all)
qed

theorem apply_attempts_every_entry_witness:
  "fst (snd (on_apply_layout_clicked failing_run () one_pending))
     = [[''xrandr'', ''--output'', ''A'', ''--right-of'', ''B'']]
   \<and> status (snd (snd (on_apply_layout_clicked failing_run () one_pending)))
     = status one_pending @ [''Failed to position A: xrandr: cannot find output'']"
proof -
  have p: "pending_layout_changes one_pending = [(''A'', ''B'', ''right-of'')]"
    by code_simp
  have r: "fst (run_all failing_run (map reposition_cmd [(''A'', ''B'', ''right-of'')]) ())
           = [Completed 1 (''xrandr: cannot find output'' @ [CHR 0x0A])]"
    by (simp add: failing_run_def)
  have f: "failure_report (''A'', ''B'', ''right-of'')
             (Completed 1 (''xrandr: cannot find output'' @ [CHR 0x0A]))
           = [''Failed to position A: xrandr: cannot find output'']"
    by code_simp
  have "fst (snd (on_apply_layout_clicked failing_run () one_pending))
          = map reposition_cmd [(''A'', ''B'', ''right-of'')]
      \<and> status (snd (snd (on_apply_layout_clicked failing_run () one_pending)))
          = status one_pending
            @ concat (map (\<lambda>(e, res). failure_report e res)
                (zip [(''A'', ''B'', ''right-of'')]
                   [Completed 1 (''xrandr: cannot find output'' @ [CHR 0x0A])]))
            @ (if 0 < length (filter succeeded
                     [Completed 1 (''xrandr: cannot find output'' @ [CHR 0x0A])])
               then [''Applied ''
                     @ str_nat (length (filter succeeded
                         [Completed 1 (''xrandr: cannot find output'' @ [CHR 0x0A])]))
                     @ '' layout change(s)'']
               else [])"
    using apply_attempts_every_entry [of failing_run "()" one_pending]
    unfolding p r by blast
  then show ?thesis
    using f by (simp add: reposition_cmd_def del: failure_report.simps)
qed

lemma set_map_entry:
  "(k, v') \<in> set (AList.map_entry key f xs) \<Longrightarrow>
     \<exists>v. (k, v) \<in> set xs \<and> (v' = v \<or> (k = key \<and> v' = f v))"
  by (induction xs) (auto split: if_splits)

lemma pending_flags_covered_fresh:
  "pending_flags_covered
     (s\<lparr>display_widgets := create_widgets place ds, pending_layout_changes := []\<rparr>)"
proof -
  have "\<not> has_pending_changes w" if "(k, w) \<in> set (create_widgets place ds)" for k w
    using that
  proof (induction ds arbitrary: k w rule: rev_induct)
    case Nil
    then show ?case by (simp add: create_widgets_def)
  next
    case (snoc d ds)
    have "set (AList.update k' v al) \<subseteq> insert (k', v) (set al)" for k' v and al :: "(string \<times> display_widget) list"
      by (induction al) auto
    then have "(k, w) = (name d, fresh_widget (place (length ds) d) d)
               \<or> (k, w) \<in> set (create_widgets place ds)"
      using snoc.prems by (auto simp add: create_widgets_def enumerate_append_eq)
    then show ?case using snoc.IH by (auto simp add: fresh_widget_def)
  qed
  then show ?thesis by (auto simp add: pending_flags_covered_def)
qed

lemma pending_flags_covered_snap:
  assumes "pending_flags_covered s"
  shows "pending_flags_covered (snap_widget_position key s)"
proof (cases "map_of (display_widgets s) key")
  case None
  then show ?thesis using assms by (simp add: snap_widget_position_def)
next
  case (Some dragged)
  show ?thesis
  proof (cases "find_best_snap key (allocation dragged) (display_widgets s)")
    case None
    have "pending_flags_covered (move key px py s)" for px py
      using assms
      by (fastforce simp add: pending_flags_covered_def move_def update_widget_def
            dest!: set_map_entry)
    then show ?thesis
      using assms Some None
      by (simp add: snap_widget_position_def find_non_overlapping_position_def
            split: option.splits)
  next
    case best: (Some c)
    obtain sx sy rel dir where c: "c = (sx, sy, rel, dir)" by (cases c) auto
    show ?thesis
    proof (cases "would_overlap key (allocation dragged) (display_widgets s) sx sy")
      case True
      then show ?thesis using assms Some best c by (simp add: snap_widget_position_def)
    next
      case False
      have "pending_flags_covered
              (show_status m
                ((update_widget key (\<lambda>w. w\<lparr>has_pending_changes := True\<rparr>) (move key sx sy s))
                   \<lparr>pending_layout_changes :=
                      AList.update key (rel, dir) (pending_layout_changes s),
                    apply_layout_btn := True\<rparr>))" for m
        using assms
        by (fastforce simp add: pending_flags_covered_def move_def update_widget_def
              show_status_def AList.update_conv' dest!: set_map_entry)
      then show ?thesis using Some best c False by (simp add: snap_widget_position_def)
    qed
  qed
qed

text \<open>
  Claim C10: when the handler returns, the map of pending changes is empty and no widget
  shows the mark of a pending change, whatever the invocations did, also when all of them
  failed or raised. The handler returns at once when the map is empty; the marks are then
  clear because a mark is only ever set together with an entry of the map
  (\<open>pending_flags_covered\<close>, which holds after a refresh and is kept by the release
  handler and by this one).
\<close>

theorem apply_clears_pending:
  assumes "pending_flags_covered s"
  shows "pending_layout_changes (snd (snd (on_apply_layout_clicked run world s))) = []
    \<and> (\<forall>item \<in> set (display_widgets (snd (snd (on_apply_layout_clicked run world s)))).
          \<not> has_pending_changes (snd item))
    \<and> pending_flags_covered (snd (snd (on_apply_layout_clicked run world s)))"
proof (cases "pending_layout_changes s = []")
  case True
  then show ?thesis
    using assms by (auto simp add: on_apply_layout_clicked_result pending_flags_covered_def)
next
  case False
  then show ?thesis
    by (auto simp add: on_apply_layout_clicked_result pending_flags_covered_def)
qed

theorem apply_clears_pending_witness:
  "pending_flags_covered one_pending
   \<and> map (\<lambda>item. has_pending_changes (snd item)) (display_widgets one_pending)
       = [True, False, False]
   \<and> pending_layout_changes one_pending = [(''A'', ''B'', ''right-of'')]
   \<and> pending_layout_changes (snd (snd (on_apply_layout_clicked raising_run () one_pending))) = []
   \<and> map (\<lambda>item. has_pending_changes (snd item))
        (display_widgets (snd (snd (on_apply_layout_clicked raising_run () one_pending))))
       = [False, False, False]"
proof -
  have "pending_flags_covered tied_drop"
    by (simp add: pending_flags_covered_def tied_drop_def example_gui_def example_widget_def
          fresh_widget_def)
  then have c: "pending_flags_covered one_pending"
    unfolding one_pending_def by (rule pending_flags_covered_snap)
  have f: "map (\<lambda>item. has_pending_changes (snd item)) (display_widgets one_pending)
       = [True, False, False]"
    by code_simp
  have p: "pending_layout_changes one_pending = [(''A'', ''B'', ''right-of'')]"
    by code_simp
  have w: "map fst (display_widgets one_pending) = [''A'', ''B'', ''C'']"
    by code_simp
  have a: "map (\<lambda>item. has_pending_changes (snd item))
        (display_widgets (snd (snd (on_apply_layout_clicked raising_run () one_pending))))
       = [False, False, False]"
    by code_simp
  show ?thesis
    using apply_clears_pending [OF c, of raising_run "()"] c f p a by simp
qed

end
